theory Spec2Isabelle
  imports Complex_Main "HOL-Library.Word" "HOL-Library.Log_Nat" "HOL-Library.Sublist"
begin

unbundle bit_operations_syntax

section \<open>JavaScript strings\<close>

text \<open>
  A JavaScript string is a sequence of UTF-16 code units. \<open>js\<close> writes an ASCII
  literal of the source as such a sequence.
\<close>

type_synonym jsstring = "16 word list"

definition js :: "string \<Rightarrow> jsstring" where
  "js s = map of_char s"

text \<open>\<^verbatim>\<open>s.includes(t)\<close>: \<open>t\<close> occurs in \<open>s\<close> as a contiguous run.\<close>

fun str_includes :: "'a list \<Rightarrow> 'a list \<Rightarrow> bool" where
  "str_includes [] t = (t = [])"
| "str_includes (x # xs) t = (prefix t (x # xs) \<or> str_includes xs t)"

text \<open>\<^verbatim>\<open>s.startsWith(t)\<close>.\<close>

definition startsWith :: "'a list \<Rightarrow> 'a list \<Rightarrow> bool" where
  "startsWith s t = prefix t s"

text \<open>
  Matching under the \<^verbatim>\<open>i\<close> flag of a regular expression without the \<^verbatim>\<open>u\<close>
  flag compares canonicalised code units. Every pattern of this program is ASCII; a
  code unit outside ASCII never canonicalises to an ASCII one, so against these
  patterns canonicalisation acts as upper-casing of \<^verbatim>\<open>a\<close>..\<^verbatim>\<open>z\<close>.
\<close>

definition regexCanon :: "16 word \<Rightarrow> 16 word" where
  "regexCanon c = (if 0x61 \<le> c \<and> c \<le> 0x7A then c - 0x20 else c)"

text \<open>\<^verbatim>\<open>/^pat/i.test(s)\<close> and \<^verbatim>\<open>/pat/i.test(s)\<close> for a literal pattern.\<close>

definition testPrefixCI :: "jsstring \<Rightarrow> jsstring \<Rightarrow> bool" where
  "testPrefixCI pat s = prefix (map regexCanon pat) (map regexCanon s)"

definition testSearchCI :: "jsstring \<Rightarrow> jsstring \<Rightarrow> bool" where
  "testSearchCI pat s = str_includes (map regexCanon s) (map regexCanon pat)"

section \<open>Auth Detector\<close>

text \<open>
  Of a Playwright cookie, \<^verbatim>\<open>detectAuthFromCookies\<close> reads the name and the domain
  only; the record is extensible for the other fields. The \<^verbatim>\<open>debug\<close> flag only
  prints and is left out.
\<close>

record cookie =
  name :: jsstring
  domain :: jsstring

record AuthCheck =
  authenticated :: bool
  note_text :: jsstring
  matched :: "jsstring list"

definition normalizeDomain :: "jsstring \<Rightarrow> jsstring" where
  "normalizeDomain d = (if startsWith d (js ''.'') then drop 1 d else d)"

text \<open>The predicate of the filter that builds \<^verbatim>\<open>svx\<close>.\<close>

definition onScholarvox :: "'a cookie_scheme \<Rightarrow> bool" where
  "onScholarvox c = str_includes (normalizeDomain (domain c)) (js ''scholarvox.com'')"

text \<open>\<^verbatim>\<open>/^sfsessid/i.test(c.name)\<close>.\<close>

definition isSfsessid :: "'a cookie_scheme \<Rightarrow> bool" where
  "isSfsessid c = testPrefixCI (js ''sfsessid'') (name c)"

text \<open>The template \<^verbatim>\<open>`${c.name}@${normalizeDomain(c.domain)}`\<close>.\<close>

definition matchedEntry :: "'a cookie_scheme \<Rightarrow> jsstring" where
  "matchedEntry c = name c @ js ''@'' @ normalizeDomain (domain c)"

definition detectAuthFromCookies :: "'a cookie_scheme list \<Rightarrow> AuthCheck" where
  "detectAuthFromCookies all =
     (let svx = filter onScholarvox all;
          hasSession = list_ex isSfsessid svx
      in if hasSession
         then \<lparr>authenticated = True,
               note_text = js ''Authenticated (SFSESSID on scholarvox).'',
               matched = map matchedEntry (filter isSfsessid svx)\<rparr>
         else
           let hasXpriv = list_ex (\<lambda>c. testPrefixCI (js ''_xpriv'') (name c)) svx;
               hasPosthog = list_ex (\<lambda>c. testSearchCI (js ''posthog'') (name c)) svx;
               hasVisitor = list_ex (\<lambda>c. testSearchCI (js ''visitor_unique'') (name c)) svx;
               auth = (hasSession \<and> (hasXpriv \<or> hasPosthog \<or> hasVisitor))
           in \<lparr>authenticated = auth,
                note_text = (if auth then js ''Authenticated via SFSESSID + signal.''
                        else js ''Not authenticated: missing SFSESSID on scholarvox.com.''),
                matched = []\<rparr>)"

text \<open>
  The domain test as the specification words it: after stripping one leading dot the
  domain is \<^verbatim>\<open>scholarvox.com\<close> or ends with \<^verbatim>\<open>.scholarvox.com\<close>.
\<close>

definition specPlatformDomain :: "jsstring \<Rightarrow> bool" where
  "specPlatformDomain d =
     (normalizeDomain d = js ''scholarvox.com'' \<or> suffix (js ''.scholarvox.com'') (normalizeDomain d))"

text \<open>Cookies used as concrete inputs below.\<close>

definition sessionCookie :: cookie where
  "sessionCookie = \<lparr>name = js ''SFSESSID_univ'', domain = js ''.scholarvox.com''\<rparr>"

definition sessionCookie2 :: cookie where
  "sessionCookie2 = \<lparr>name = js ''sfsessid'', domain = js ''univ.scholarvox.com''\<rparr>"

definition xprivCookie :: cookie where
  "xprivCookie = \<lparr>name = js ''_xpriv'', domain = js ''.scholarvox.com''\<rparr>"

definition posthogCookie :: cookie where
  "posthogCookie = \<lparr>name = js ''ph_posthog'', domain = js ''univ.scholarvox.com''\<rparr>"

definition visitorCookie :: cookie where
  "visitorCookie = \<lparr>name = js ''visitor_unique'', domain = js ''scholarvox.com''\<rparr>"

definition foreignSessionCookie :: cookie where
  "foreignSessionCookie = \<lparr>name = js ''sfsessid'', domain = js ''example.org''\<rparr>"

definition proxiedCookie :: cookie where
  "proxiedCookie = \<lparr>name = js ''sfsessid'', domain = js ''univ.scholarvox.com.ezproxy.example.org''\<rparr>"

section \<open>Catalog Prober\<close>

datatype BookStatus = FOUND | REMOVED | NOT_FOUND | AVAILABLE_SOON

text \<open>
  \<^verbatim>\<open>s.toLowerCase()\<close> on the letters of Basic Latin and Latin-1; code units of other
  scripts are left as they are. The marker texts of the catalog page are French.
\<close>

definition toLowerCaseUnit :: "16 word \<Rightarrow> 16 word" where
  "toLowerCaseUnit c =
     (if (0x41 \<le> c \<and> c \<le> 0x5A) \<or> (0xC0 \<le> c \<and> c \<le> 0xDE \<and> c \<noteq> 0xD7) then c + 0x20 else c)"

definition toLowerCase :: "jsstring \<Rightarrow> jsstring" where
  "toLowerCase s = map toLowerCaseUnit s"

text \<open>\<^verbatim>\<open>s.trim()\<close>: white space and line terminators are removed at both ends.\<close>

definition isWhiteSpace :: "16 word \<Rightarrow> bool" where
  "isWhiteSpace c =
     ((0x09 \<le> c \<and> c \<le> 0x0D) \<or> c = 0x20 \<or> c = 0xA0 \<or> c = 0x1680 \<or> (0x2000 \<le> c \<and> c \<le> 0x200A)
      \<or> c = 0x2028 \<or> c = 0x2029 \<or> c = 0x202F \<or> c = 0x205F \<or> c = 0x3000 \<or> c = 0xFEFF)"

definition trim :: "jsstring \<Rightarrow> jsstring" where
  "trim s = rev (dropWhile isWhiteSpace (rev (dropWhile isWhiteSpace s)))"

text \<open>
  What one probe observes of the browser, one field for each awaited call:
  \<^item> \<open>gotoResponse\<close>: \<^verbatim>\<open>page.goto(...).catch(() => null)\<close>; \<open>None\<close> is \<^verbatim>\<open>null\<close>
    (the navigation failed), \<open>Some b\<close> a response with \<^verbatim>\<open>resp.ok() = b\<close>;
  \<^item> \<open>finalUrl\<close>: \<^verbatim>\<open>page.url()\<close>;
  \<^item> \<open>removedVisible\<close>, \<open>notAvailVisible\<close>: the two \<^verbatim>\<open>isVisible()\<close> calls,
    \<^verbatim>\<open>false\<close> when they reject;
  \<^item> \<open>removedInnerText\<close>: \<^verbatim>\<open>removedFlag.innerText()\<close>, empty when it rejects;
  \<^item> \<open>pageContent\<close>: \<^verbatim>\<open>page.content()\<close>, awaited without a handler: \<open>None\<close>
    when it rejects;
  \<^item> \<open>titleTextContent\<close>: \<^verbatim>\<open>titleLocator.textContent()\<close>, \<open>None\<close> for
    \<^verbatim>\<open>null\<close>, the empty string when it rejects.
\<close>

record catalogPage =
  gotoResponse :: "bool option"
  finalUrl :: jsstring
  removedVisible :: bool
  removedInnerText :: jsstring
  notAvailVisible :: bool
  pageContent :: "jsstring option"
  titleTextContent :: "jsstring option"

datatype probeError = ContentRejected

text \<open>\<^verbatim>\<open>/404|not[-_ ]found|error/i.test(finalUrl)\<close>.\<close>

definition errorUrlPattern :: "jsstring \<Rightarrow> bool" where
  "errorUrlPattern u =
     (testSearchCI (js ''404'') u \<or> testSearchCI (js ''not-found'') u \<or> testSearchCI (js ''not_found'') u
      \<or> testSearchCI (js ''not found'') u \<or> testSearchCI (js ''error'') u)"

definition removedMessage :: jsstring where
  "removedMessage = js ''cet ouvrage n'est plus disponible''"

text \<open>
  The literal searched for in the lower-cased page content; \<open>0xF4\<close> is its one
  letter outside ASCII, the o with circumflex of \<^verbatim>\<open>bientot\<close>.
\<close>

definition soonMessage :: jsstring where
  "soonMessage = js ''cet ouvrage sera bient'' @ [0xF4] @ js ''t disponible''"

definition checkBookStatus :: "catalogPage \<Rightarrow> probeError + BookStatus" where
  "checkBookStatus p =
     (if gotoResponse p \<noteq> Some True then Inr NOT_FOUND
      else if errorUrlPattern (finalUrl p) then Inr NOT_FOUND
      else if removedVisible p then Inr REMOVED
      else
        let removedText = (if removedVisible p then toLowerCase (removedInnerText p) else [])
        in if str_includes removedText removedMessage then Inr REMOVED
           else if notAvailVisible p then Inr REMOVED
           else (case pageContent p of
                   None \<Rightarrow> Inl ContentRejected
                 | Some content \<Rightarrow>
                     if str_includes (toLowerCase content) soonMessage then Inr AVAILABLE_SOON
                     else
                       let titleText = (case titleTextContent p of None \<Rightarrow> [] | Some t \<Rightarrow> trim t)
                       in if length titleText > 0 then Inr FOUND else Inr NOT_FOUND))"

text \<open>The sentence as the catalog page shows it, with its capital letter.\<close>

definition soonSentence :: jsstring where
  "soonSentence = js ''Cet ouvrage sera bient'' @ [0xF4] @ js ''t disponible''"

text \<open>Catalog pages used as concrete inputs below; each carries a non-empty title.\<close>

definition catalogUrl :: jsstring where
  "catalogUrl = js ''https://univ.scholarvox.com/catalog/book/docid/88812345''"

definition removedPage :: catalogPage where
  "removedPage = \<lparr>gotoResponse = Some True, finalUrl = catalogUrl, removedVisible = True,
     removedInnerText = js ''Cet ouvrage n'est plus disponible'', notAvailVisible = False,
     pageContent = Some (js ''<h2>Stale title</h2><div class=removedFlag>Cet ouvrage n'est plus disponible</div>''),
     titleTextContent = Some (js ''Stale title'')\<rparr>"

definition notAvailPage :: catalogPage where
  "notAvailPage = \<lparr>gotoResponse = Some True, finalUrl = catalogUrl, removedVisible = False,
     removedInnerText = [], notAvailVisible = True,
     pageContent = Some (js ''<h2>Stale title</h2><div id=pnl-notavail></div>''),
     titleTextContent = Some (js ''Stale title'')\<rparr>"

definition soonPage :: catalogPage where
  "soonPage = \<lparr>gotoResponse = Some True, finalUrl = catalogUrl, removedVisible = False,
     removedInnerText = [], notAvailVisible = False,
     pageContent = Some (js ''<h2>A title</h2><p>'' @ soonSentence @ js ''.</p>''),
     titleTextContent = Some (js ''A title'')\<rparr>"

text \<open>The same pages for a book whose document id contains \<^verbatim>\<open>404\<close>.\<close>

definition catalogUrl404 :: jsstring where
  "catalogUrl404 = js ''https://univ.scholarvox.com/catalog/book/docid/88840412''"

definition removedPage404 :: catalogPage where
  "removedPage404 = removedPage\<lparr>finalUrl := catalogUrl404\<rparr>"

definition soonPage404 :: catalogPage where
  "soonPage404 = soonPage\<lparr>finalUrl := catalogUrl404\<rparr>"

definition removedPageNavFailed :: catalogPage where
  "removedPageNavFailed = removedPage\<lparr>gotoResponse := None\<rparr>"

definition foundPageHttpError :: catalogPage where
  "foundPageHttpError = \<lparr>gotoResponse = Some False, finalUrl = catalogUrl, removedVisible = False,
     removedInnerText = [], notAvailVisible = False,
     pageContent = Some (js ''<h2>A title</h2>''),
     titleTextContent = Some (js ''A title'')\<rparr>"

section \<open>Reader Navigator\<close>

text \<open>
  The part of \<^verbatim>\<open>downloadBook\<close> between the login and the scroll loop: it reads the
  iframe address, opens the iframe page, counts the pages and, on a count of zero,
  reloads. The run observes
  \<^item> \<open>iframeSrc\<close>: the \<^verbatim>\<open>src\<close> of the iframe, \<open>None\<close> without an iframe;
  \<^item> \<open>firstCount\<close>: the number of children of \<^verbatim>\<open>#page-container\<close> on the first
    iframe page (zero without the container), \<open>None\<close> when a Playwright call on the
    way rejects;
  \<^item> \<open>secondCount\<close>: the same on the reloaded page.
  The events record what the run does with the iframe page.
\<close>

record readerRun =
  iframeSrc :: "jsstring option"
  firstCount :: "nat option"
  secondCount :: "nat option"

datatype readerEvent = OpenIframePage | ReloadIframePage | ReadPageCount nat

datatype downloadError = NoIframeFound | StillZeroPagesAfterRetry | PlaywrightRejected

definition isReload :: "readerEvent \<Rightarrow> bool" where
  "isReload e = (e = ReloadIframePage)"

definition downloadBookPageCount :: "readerRun \<Rightarrow> readerEvent list \<times> (downloadError + nat)" where
  "downloadBookPageCount run =
     (case iframeSrc run of
        None \<Rightarrow> ([], Inl NoIframeFound)
      | Some iframeUrl \<Rightarrow>
          if iframeUrl = [] then ([], Inl NoIframeFound)
          else (case firstCount run of
                  None \<Rightarrow> ([OpenIframePage], Inl PlaywrightRejected)
                | Some totalPages \<Rightarrow>
                    if totalPages = 0
                    then (case secondCount run of
                            None \<Rightarrow>
                              ([OpenIframePage, ReadPageCount totalPages, ReloadIframePage],
                               Inl PlaywrightRejected)
                          | Some totalPages' \<Rightarrow>
                              ([OpenIframePage, ReadPageCount totalPages, ReloadIframePage,
                                ReadPageCount totalPages'],
                               if totalPages' = 0 then Inl StillZeroPagesAfterRetry
                               else Inr totalPages'))
                    else ([OpenIframePage, ReadPageCount totalPages], Inr totalPages)))"

definition reloads :: "readerRun \<Rightarrow> nat" where
  "reloads run = length (filter isReload (fst (downloadBookPageCount run)))"

definition readerUrl :: jsstring where
  "readerUrl = js ''https://univ.scholarvox.com/reader/iframe/88812345''"

section \<open>Numbers\<close>

text \<open>
  A JavaScript number is a binary64 value; the finite ones are rationals. \<open>roundDouble\<close>
  rounds a rational to the nearest value with a significand of 53 bits, ties to even, as
  every arithmetic operation and every decimal literal does. Results of this program
  stay far from the overflow and subnormal ranges, which are not modelled.
  \<open>ilog2 a\<close> is the exponent \<open>e\<close> with \<open>2 powi e \<le> a < 2 powi (e + 1)\<close> for
  positive \<open>a\<close>.
\<close>

definition ilog2 :: "rat \<Rightarrow> int" where
  "ilog2 a =
     (case quotient_of a of (p, q) \<Rightarrow>
        let k = bitlen p - bitlen q in if 2 powi k \<le> a then k else k - 1)"

definition roundHalfEven :: "rat \<Rightarrow> int" where
  "roundHalfEven m =
     (let f = \<lfloor>m\<rfloor>; r = m - of_int f
      in if r < 1 / 2 then f else if 1 / 2 < r then f + 1 else if even f then f else f + 1)"

definition roundDouble :: "rat \<Rightarrow> rat" where
  "roundDouble x =
     (if x = 0 then 0
      else let e = ilog2 \<bar>x\<bar> - 52 in sgn x * of_int (roundHalfEven (\<bar>x\<bar> / 2 powi e)) * 2 powi e)"

definition num_div :: "rat \<Rightarrow> rat \<Rightarrow> rat" where
  "num_div a b = roundDouble (a / b)"

definition num_mul :: "rat \<Rightarrow> rat \<Rightarrow> rat" where
  "num_mul a b = roundDouble (a * b)"

section \<open>Page Capture\<close>

text \<open>
  The end of \<^verbatim>\<open>printScholarVoxPageToPDF\<close>: from the detected pixel size and the
  \<^verbatim>\<open>scale\<close> argument to the options handed to \<^verbatim>\<open>iframePage.pdf\<close>. The argument is
  optional (\<open>None\<close> when the caller leaves it out) with default \<^verbatim>\<open>0.4\<close>; a
  value given by the caller is a finite number. The width and height options are the
  strings \<^verbatim>\<open>`${pageWidthInches}in`\<close>; the record keeps the numbers.
\<close>

record pageDimensions =
  width :: rat
  height :: rat

definition pageWidthInches :: "pageDimensions \<Rightarrow> rat" where
  "pageWidthInches d = num_div (width d) 96"

definition pageHeightInches :: "pageDimensions \<Rightarrow> rat" where
  "pageHeightInches d = num_div (height d) 96"

definition referenceWidth :: rat where
  "referenceWidth = 1080"

text \<open>The literal \<^verbatim>\<open>0.4\<close> is the binary64 value nearest to \<open>2 / 5\<close>.\<close>

definition referenceScale :: rat where
  "referenceScale = roundDouble (2 / 5)"

definition autoScale :: "pageDimensions \<Rightarrow> rat" where
  "autoScale d = num_mul referenceScale (num_div (width d) referenceWidth)"

definition finalScale :: "rat option \<Rightarrow> pageDimensions \<Rightarrow> rat" where
  "finalScale scaleArg d =
     (let scale = (case scaleArg of None \<Rightarrow> roundDouble (2 / 5) | Some s \<Rightarrow> s)
      in if scale \<noteq> roundDouble (2 / 5) then scale else autoScale d)"

text \<open>The options object of the call \<^verbatim>\<open>iframePage.pdf({...})\<close>.\<close>

record pdfOptions =
  widthInches :: rat
  heightInches :: rat
  printBackground :: bool
  marginTop :: jsstring
  marginRight :: jsstring
  marginBottom :: jsstring
  marginLeft :: jsstring
  scale :: rat
  preferCSSPageSize :: bool

definition pdfCall :: "rat option \<Rightarrow> pageDimensions \<Rightarrow> pdfOptions" where
  "pdfCall scaleArg d =
     \<lparr>widthInches = pageWidthInches d, heightInches = pageHeightInches d,
      printBackground = True,
      marginTop = js ''0mm'', marginRight = js ''0mm'', marginBottom = js ''0mm'',
      marginLeft = js ''0mm'',
      scale = finalScale scaleArg d, preferCSSPageSize = False\<rparr>"

section \<open>Render Stabilizer\<close>

text \<open>
  The document as one iteration of the retry loop finds it, after the scroll nudge and
  the image decoding: its images, canvases and \<^verbatim>\<open>div\<close> elements with the properties
  the loop reads.
  \<^item> \<open>context2d\<close>: whether \<^verbatim>\<open>getContext("2d")\<close> returns a context;
  \<^item> \<open>imageData x y\<close>: the four bytes of \<^verbatim>\<open>getImageData(x, y, 1, 1).data\<close>;
  \<^item> \<open>rectWidth\<close>, \<open>rectHeight\<close>: the bounding rectangle;
  \<^item> \<open>backgroundImage\<close>: the computed style.
\<close>

record image =
  complete :: bool
  naturalWidth :: nat
  naturalHeight :: nat

record rgba =
  red :: "8 word"
  green :: "8 word"
  blue :: "8 word"
  alpha :: "8 word"

record canvas =
  canvasWidth :: nat
  canvasHeight :: nat
  context2d :: bool
  imageData :: "nat \<Rightarrow> nat \<Rightarrow> rgba"

record divBox =
  rectWidth :: rat
  rectHeight :: rat
  backgroundImage :: jsstring

record document =
  images :: "image list"
  canvases :: "canvas list"
  divs :: "divBox list"

datatype candidate = ImgCand image | CanvasCand canvas | DivCand divBox

fun area :: "candidate \<Rightarrow> rat" where
  "area (ImgCand img) = num_mul (of_nat (naturalWidth img)) (of_nat (naturalHeight img))"
| "area (CanvasCand cv) = num_mul (of_nat (canvasWidth cv)) (of_nat (canvasHeight cv))"
| "area (DivCand dv) = num_mul (rectWidth dv) (rectHeight dv)"

text \<open>
  \<^verbatim>\<open>pickLargeCandidate\<close>. The comparator \<^verbatim>\<open>b.area - a.area\<close> orders by
  decreasing area and \<^verbatim>\<open>Array.prototype.sort\<close> is stable, as \<open>sort_key\<close> is.
\<close>

definition pickLargeCandidate :: "document \<Rightarrow> candidate option" where
  "pickLargeCandidate doc =
     (let candidates =
            filter (\<lambda>c. area c > 1500 * 1500) (map ImgCand (images doc))
            @ filter (\<lambda>c. area c > 1500 * 1500) (map CanvasCand (canvases doc))
            @ map DivCand
                (filter (\<lambda>dv. area (DivCand dv) > 1500 * 1500 \<and> backgroundImage dv \<noteq> []
                               \<and> backgroundImage dv \<noteq> js ''none'') (divs doc))
      in case sort_key (\<lambda>c. - area c) candidates of [] \<Rightarrow> None | c # _ \<Rightarrow> Some c)"

text \<open>
  The sample coordinates \<^verbatim>\<open>[Math.floor(w * 0.25), Math.floor(h * 0.25)]\<close>, \<^verbatim>\<open>0.5\<close>
  and \<^verbatim>\<open>0.75\<close>; the three factors are binary64 values.
\<close>

definition samples :: "canvas \<Rightarrow> (nat \<times> nat) list" where
  "samples cv =
     (let w = of_nat (canvasWidth cv); h = of_nat (canvasHeight cv)
      in [(nat \<lfloor>num_mul w (1 / 4)\<rfloor>, nat \<lfloor>num_mul h (1 / 4)\<rfloor>),
          (nat \<lfloor>num_mul w (1 / 2)\<rfloor>, nat \<lfloor>num_mul h (1 / 2)\<rfloor>),
          (nat \<lfloor>num_mul w (3 / 4)\<rfloor>, nat \<lfloor>num_mul h (3 / 4)\<rfloor>)])"

text \<open>The pixel read for one sample: \<^verbatim>\<open>getImageData(min(w - 1, sx), min(h - 1, sy), 1, 1)\<close>.\<close>

definition sampledPixel :: "canvas \<Rightarrow> nat \<times> nat \<Rightarrow> rgba" where
  "sampledPixel cv s =
     imageData cv (min (canvasWidth cv - 1) (fst s)) (min (canvasHeight cv - 1) (snd s))"

definition coloured :: "rgba \<Rightarrow> bool" where
  "coloured d = (alpha d > 0 \<and> (red d < 250 \<or> green d < 250 \<or> blue d < 250))"

definition canvasHasNonWhitePixel :: "canvas \<Rightarrow> bool" where
  "canvasHasNonWhitePixel cv =
     (if \<not> context2d cv \<or> canvasWidth cv < 10 \<or> canvasHeight cv < 10 then False
      else
        let colored = length (filter (\<lambda>s. coloured (sampledPixel cv s)) (samples cv))
        in colored > 0)"

datatype candKind = Kimg | Kcanvas | Kdiv

datatype renderInfo = RenderOk candKind rat rat jsstring | RenderFailed jsstring

text \<open>\<^verbatim>\<open>Math.round\<close>: the nearest integer, halves upwards.\<close>

definition math_round :: "rat \<Rightarrow> rat" where
  "math_round x = of_int \<lfloor>x + 1 / 2\<rfloor>"

text \<open>The validation of the picked candidate, \<open>None\<close> when the iteration goes on.\<close>

fun validate :: "candidate \<Rightarrow> renderInfo option" where
  "validate (ImgCand img) =
     (if complete img \<and> naturalWidth img > 10 \<and> naturalHeight img > 10
      then Some (RenderOk Kimg (of_nat (naturalWidth img)) (of_nat (naturalHeight img))
                   (js ''image natural dimensions''))
      else None)"
| "validate (CanvasCand cv) =
     (if canvasWidth cv > 10 \<and> canvasHeight cv > 10 \<and> canvasHasNonWhitePixel cv
      then Some (RenderOk Kcanvas (of_nat (canvasWidth cv)) (of_nat (canvasHeight cv))
                   (js ''canvas pixels''))
      else None)"
| "validate (DivCand dv) =
     (if rectWidth dv > 10 \<and> rectHeight dv > 10
      then Some (RenderOk Kdiv (math_round (rectWidth dv)) (math_round (rectHeight dv))
                   (js ''div background''))
      else None)"

definition attempt :: "document \<Rightarrow> renderInfo option" where
  "attempt doc = (case pickLargeCandidate doc of None \<Rightarrow> None | Some cand \<Rightarrow> validate cand)"

text \<open>
  The loop \<^verbatim>\<open>while (attempts-- > 0)\<close>; \<open>docs i\<close> is the document at iteration \<open>i\<close>.
\<close>

fun renderLoop :: "nat \<Rightarrow> (nat \<Rightarrow> document) \<Rightarrow> nat \<Rightarrow> renderInfo" where
  "renderLoop 0 docs i = RenderFailed (js ''timed out waiting for rendered page'')"
| "renderLoop (Suc attempts) docs i =
     (case attempt (docs i) of
        Some info \<Rightarrow> info
      | None \<Rightarrow> renderLoop attempts docs (Suc i))"

definition lazyRender :: "(nat \<Rightarrow> document) \<Rightarrow> renderInfo" where
  "lazyRender docs = renderLoop 30 docs 0"

text \<open>A pixel as the specification describes a blank one: transparent or near-white.\<close>

definition blankPixel :: "rgba \<Rightarrow> bool" where
  "blankPixel d = (alpha d = 0 \<or> (red d \<ge> 250 \<and> green d \<ge> 250 \<and> blue d \<ge> 250))"

text \<open>A white placeholder canvas and a document holding it, used as concrete inputs.\<close>

definition whitePixel :: rgba where
  "whitePixel = \<lparr>red = 255, green = 255, blue = 255, alpha = 255\<rparr>"

definition whiteCanvas :: canvas where
  "whiteCanvas = \<lparr>canvasWidth = 2000, canvasHeight = 3000, context2d = True,
                  imageData = (\<lambda>x y. whitePixel)\<rparr>"

definition placeholderDoc :: document where
  "placeholderDoc = \<lparr>images = [], canvases = [whiteCanvas], divs = []\<rparr>"

section \<open>Credential obfuscation\<close>

text \<open>
  \<^verbatim>\<open>encode\<close> and \<^verbatim>\<open>decode\<close> share one loop: code unit \<open>i\<close> of the text is
  combined by exclusive or with code unit \<open>i mod key.length\<close> of the key, and
  \<^verbatim>\<open>String.fromCharCode\<close> keeps the 16 bits.
\<close>

definition key :: jsstring where
  "key = js ''voxfetch-cesi-2025''"

fun xorWithKey :: "nat \<Rightarrow> jsstring \<Rightarrow> jsstring" where
  "xorWithKey i [] = []"
| "xorWithKey i (c # cs) = (c XOR key ! (i mod length key)) # xorWithKey (Suc i) cs"

text \<open>
  \<^verbatim>\<open>Buffer.from(result)\<close> writes the string in UTF-8: one to three bytes for a code
  unit, four for a surrogate pair, the replacement character for a lone surrogate.
\<close>

definition isHighSurrogate :: "16 word \<Rightarrow> bool" where
  "isHighSurrogate c = (0xD800 \<le> c \<and> c \<le> 0xDBFF)"

definition isLowSurrogate :: "16 word \<Rightarrow> bool" where
  "isLowSurrogate c = (0xDC00 \<le> c \<and> c \<le> 0xDFFF)"

definition codePoint :: "16 word \<Rightarrow> 16 word \<Rightarrow> 32 word" where
  "codePoint hi lo = 0x10000 + push_bit 10 (ucast hi AND 0x3FF) + (ucast lo AND 0x3FF)"

definition utf8Bytes1 :: "16 word \<Rightarrow> 8 word list" where
  "utf8Bytes1 c = [ucast c]"

definition utf8Bytes2 :: "16 word \<Rightarrow> 8 word list" where
  "utf8Bytes2 c = [0xC0 OR ucast (drop_bit 6 c), 0x80 OR ucast (c AND 0x3F)]"

definition utf8Bytes3 :: "16 word \<Rightarrow> 8 word list" where
  "utf8Bytes3 c = [0xE0 OR ucast (drop_bit 12 c), 0x80 OR ucast (drop_bit 6 c AND 0x3F),
                   0x80 OR ucast (c AND 0x3F)]"

definition utf8Bytes4 :: "32 word \<Rightarrow> 8 word list" where
  "utf8Bytes4 p = [0xF0 OR ucast (drop_bit 18 p), 0x80 OR ucast (drop_bit 12 p AND 0x3F),
                   0x80 OR ucast (drop_bit 6 p AND 0x3F), 0x80 OR ucast (p AND 0x3F)]"

definition replacementBytes :: "8 word list" where
  "replacementBytes = [0xEF, 0xBF, 0xBD]"

fun utf8Encode :: "jsstring \<Rightarrow> 8 word list" where
  "utf8Encode [] = []"
| "utf8Encode [c] =
     (if c < 0x80 then utf8Bytes1 c
      else if c < 0x800 then utf8Bytes2 c
      else if isHighSurrogate c \<or> isLowSurrogate c then replacementBytes
      else utf8Bytes3 c)"
| "utf8Encode (c # d # ds) =
     (if c < 0x80 then utf8Bytes1 c @ utf8Encode (d # ds)
      else if c < 0x800 then utf8Bytes2 c @ utf8Encode (d # ds)
      else if isHighSurrogate c \<and> isLowSurrogate d then utf8Bytes4 (codePoint c d) @ utf8Encode ds
      else if isHighSurrogate c \<or> isLowSurrogate c then replacementBytes @ utf8Encode (d # ds)
      else utf8Bytes3 c @ utf8Encode (d # ds))"

text \<open>
  \<^verbatim>\<open>buffer.toString()\<close> reads UTF-8 back; a byte that cannot start or continue a
  sequence yields the replacement character \<open>0xFFFD\<close>, and the byte that broke a
  sequence is read again.
\<close>

definition isCont :: "8 word \<Rightarrow> bool" where
  "isCont b = (0x80 \<le> b \<and> b \<le> 0xBF)"

definition secondByteOk :: "8 word \<Rightarrow> 8 word \<Rightarrow> bool" where
  "secondByteOk b b1 =
     ((if b = 0xE0 then 0xA0 else if b = 0xF0 then 0x90 else 0x80) \<le> b1
      \<and> b1 \<le> (if b = 0xED then 0x9F else if b = 0xF4 then 0x8F else 0xBF))"

definition unit2 :: "8 word \<Rightarrow> 8 word \<Rightarrow> 16 word" where
  "unit2 b b1 = push_bit 6 (ucast (b AND 0x1F)) OR ucast (b1 AND 0x3F)"

definition unit3 :: "8 word \<Rightarrow> 8 word \<Rightarrow> 8 word \<Rightarrow> 16 word" where
  "unit3 b b1 b2 = push_bit 12 (ucast (b AND 0x0F)) OR push_bit 6 (ucast (b1 AND 0x3F)) OR ucast (b2 AND 0x3F)"

definition point4 :: "8 word \<Rightarrow> 8 word \<Rightarrow> 8 word \<Rightarrow> 8 word \<Rightarrow> 32 word" where
  "point4 b b1 b2 b3 = push_bit 18 (ucast (b AND 0x07)) OR push_bit 12 (ucast (b1 AND 0x3F))
                        OR push_bit 6 (ucast (b2 AND 0x3F)) OR ucast (b3 AND 0x3F)"

definition surrogates :: "32 word \<Rightarrow> jsstring" where
  "surrogates p = [0xD800 OR ucast (drop_bit 10 (p - 0x10000)), 0xDC00 OR ucast ((p - 0x10000) AND 0x3FF)]"

fun utf8Decode :: "8 word list \<Rightarrow> jsstring" where
  "utf8Decode [] = []"
| "utf8Decode (b # bs) =
     (if b < 0x80 then ucast b # utf8Decode bs
      else if 0xC2 \<le> b \<and> b \<le> 0xDF then
        (case bs of
           [] \<Rightarrow> [0xFFFD]
         | b1 # r1 \<Rightarrow>
             if isCont b1 then unit2 b b1 # utf8Decode r1 else 0xFFFD # utf8Decode bs)
      else if 0xE0 \<le> b \<and> b \<le> 0xEF then
        (case bs of
           [] \<Rightarrow> [0xFFFD]
         | b1 # r1 \<Rightarrow>
             if secondByteOk b b1 then
               (case r1 of
                  [] \<Rightarrow> [0xFFFD]
                | b2 # r2 \<Rightarrow>
                    if isCont b2 then unit3 b b1 b2 # utf8Decode r2 else 0xFFFD # utf8Decode r1)
             else 0xFFFD # utf8Decode bs)
      else if 0xF0 \<le> b \<and> b \<le> 0xF4 then
        (case bs of
           [] \<Rightarrow> [0xFFFD]
         | b1 # r1 \<Rightarrow>
             if secondByteOk b b1 then
               (case r1 of
                  [] \<Rightarrow> [0xFFFD]
                | b2 # r2 \<Rightarrow>
                    if isCont b2 then
                      (case r2 of
                         [] \<Rightarrow> [0xFFFD]
                       | b3 # r3 \<Rightarrow>
                           if isCont b3 then surrogates (point4 b b1 b2 b3) @ utf8Decode r3
                           else 0xFFFD # utf8Decode r2)
                    else 0xFFFD # utf8Decode r1)
             else 0xFFFD # utf8Decode bs)
      else 0xFFFD # utf8Decode bs)"

text \<open>
  \<^verbatim>\<open>toString("base64")\<close>: three bytes become four characters of the alphabet,
  a shorter last group is padded with \<^verbatim>\<open>=\<close> (\<open>0x3D\<close>).
\<close>

definition b64chars :: jsstring where
  "b64chars = js ''ABCDEFGHIJKLMNOPQRSTUVWXYZabcdefghijklmnopqrstuvwxyz0123456789+/''"

definition b64char :: "nat \<Rightarrow> 16 word" where
  "b64char n = b64chars ! n"

definition sextet1 :: "8 word \<Rightarrow> nat" where
  "sextet1 a = unat a div 4"

definition sextet2 :: "8 word \<Rightarrow> 8 word \<Rightarrow> nat" where
  "sextet2 a b = unat a mod 4 * 16 + unat b div 16"

definition sextet3 :: "8 word \<Rightarrow> 8 word \<Rightarrow> nat" where
  "sextet3 b c = unat b mod 16 * 4 + unat c div 64"

definition sextet4 :: "8 word \<Rightarrow> nat" where
  "sextet4 c = unat c mod 64"

fun base64Encode :: "8 word list \<Rightarrow> jsstring" where
  "base64Encode [] = []"
| "base64Encode [a] = [b64char (sextet1 a), b64char (sextet2 a 0), 0x3D, 0x3D]"
| "base64Encode [a, b] =
     [b64char (sextet1 a), b64char (sextet2 a b), b64char (sextet3 b 0), 0x3D]"
| "base64Encode (a # b # c # rest) =
     [b64char (sextet1 a), b64char (sextet2 a b), b64char (sextet3 b c), b64char (sextet4 c)]
     @ base64Encode rest"

text \<open>
  \<^verbatim>\<open>Buffer.from(encoded, "base64")\<close>: the reader looks at the low byte of each code
  unit; bytes outside the alphabets (standard and URL-safe) are skipped, the first
  \<^verbatim>\<open>=\<close> ends the input, and the six-bit values are regrouped into bytes.
\<close>

definition unbase64 :: "8 word \<Rightarrow> nat option" where
  "unbase64 c =
     (if 0x41 \<le> c \<and> c \<le> 0x5A then Some (unat c - 0x41)
      else if 0x61 \<le> c \<and> c \<le> 0x7A then Some (unat c - 0x61 + 26)
      else if 0x30 \<le> c \<and> c \<le> 0x39 then Some (unat c - 0x30 + 52)
      else if c = 0x2B \<or> c = 0x2D then Some 62
      else if c = 0x2F \<or> c = 0x5F then Some 63
      else None)"

definition lowByte :: "16 word \<Rightarrow> 8 word" where
  "lowByte c = ucast c"

definition sextets :: "jsstring \<Rightarrow> nat list" where
  "sextets s = List.map_filter unbase64 (takeWhile (\<lambda>b. b \<noteq> 0x3D) (map lowByte s))"

definition byte1 :: "nat \<Rightarrow> nat \<Rightarrow> 8 word" where
  "byte1 s1 s2 = of_nat (s1 * 4 + s2 div 16)"

definition byte2 :: "nat \<Rightarrow> nat \<Rightarrow> 8 word" where
  "byte2 s2 s3 = of_nat (s2 mod 16 * 16 + s3 div 4)"

definition byte3 :: "nat \<Rightarrow> nat \<Rightarrow> 8 word" where
  "byte3 s3 s4 = of_nat (s3 mod 4 * 64 + s4)"

fun fromSextets :: "nat list \<Rightarrow> 8 word list" where
  "fromSextets (s1 # s2 # s3 # s4 # rest) =
     [byte1 s1 s2, byte2 s2 s3, byte3 s3 s4] @ fromSextets rest"
| "fromSextets [s1, s2, s3] = [byte1 s1 s2, byte2 s2 s3]"
| "fromSextets [s1, s2] = [byte1 s1 s2]"
| "fromSextets [s1] = []"
| "fromSextets [] = []"

definition base64Decode :: "jsstring \<Rightarrow> 8 word list" where
  "base64Decode s = fromSextets (sextets s)"

definition encode :: "jsstring \<Rightarrow> jsstring" where
  "encode text = base64Encode (utf8Encode (xorWithKey 0 text))"

definition decode :: "jsstring \<Rightarrow> jsstring" where
  "decode encoded = xorWithKey 0 (utf8Decode (base64Decode encoded))"

text \<open>
  \<^verbatim>\<open>saveCredentials\<close> writes the JSON text of an object with the two encoded strings
  to the credentials file; \<^verbatim>\<open>loadCredentials\<close> parses the file and decodes both.
  The file is the object (\<open>None\<close> when it cannot be read or parsed).
\<close>

record Credentials =
  email :: jsstring
  password :: jsstring

definition saveCredentials :: "jsstring \<Rightarrow> jsstring \<Rightarrow> Credentials option" where
  "saveCredentials e p = Some \<lparr>email = encode e, password = encode p\<rparr>"

definition loadCredentials :: "Credentials option \<Rightarrow> Credentials option" where
  "loadCredentials file =
     (case file of
        None \<Rightarrow> None
      | Some parsed \<Rightarrow> Some \<lparr>email = decode (email parsed), password = decode (password parsed)\<rparr>)"

section \<open>Strings: basic facts\<close>

lemma str_includes_iff_sublist: "str_includes s t \<longleftrightarrow> sublist t s"
  by (induction s) (simp_all add: sublist_Cons_right)

lemma str_includes_iff: "str_includes s t \<longleftrightarrow> (\<exists>pre suf. s = pre @ t @ suf)"
  by (simp add: str_includes_iff_sublist sublist_def)

lemma str_includes_map:
  assumes "str_includes s t"
  shows "str_includes (map f s) (map f t)"
proof -
  from assms obtain pre suf where "s = pre @ t @ suf"
    by (auto simp: str_includes_iff)
  then have "map f s = map f pre @ map f t @ map f suf"
    by simp
  then show ?thesis
    unfolding str_includes_iff by blast
qed

section \<open>Auth Detector: properties\<close>

lemma detectAuth_authenticated_iff:
  "authenticated (detectAuthFromCookies all) \<longleftrightarrow> (\<exists>c \<in> set all. onScholarvox c \<and> isSfsessid c)"
  by (auto simp: detectAuthFromCookies_def Let_def list_ex_iff)

lemma detectAuth_matched:
  "matched (detectAuthFromCookies all) =
     map matchedEntry (filter (\<lambda>c. onScholarvox c \<and> isSfsessid c) all)"
proof (cases "list_ex isSfsessid (filter onScholarvox all)")
  case True
  then show ?thesis
    by (simp add: detectAuthFromCookies_def Let_def conj_commute)
next
  case False
  then have "filter (\<lambda>c. onScholarvox c \<and> isSfsessid c) all = []"
    by (auto simp: list_ex_iff filter_empty_conv)
  with False show ?thesis
    by (simp add: detectAuthFromCookies_def Let_def)
qed

lemma specPlatformDomain_onScholarvox:
  assumes "specPlatformDomain (domain c)"
  shows "onScholarvox c"
proof -
  have d: "js ''.scholarvox.com'' = js ''.'' @ js ''scholarvox.com''"
    by (simp add: js_def)
  from assms consider "normalizeDomain (domain c) = [] @ js ''scholarvox.com'' @ []"
    | zs where "normalizeDomain (domain c) = (zs @ js ''.'') @ js ''scholarvox.com'' @ []"
    unfolding specPlatformDomain_def suffix_def d by auto
  then show ?thesis
    unfolding onScholarvox_def str_includes_iff by cases blast+
qed

lemma proxiedCookie_facts:
  "\<not> specPlatformDomain (domain proxiedCookie)" "onScholarvox proxiedCookie"
  "isSfsessid proxiedCookie"
  by (simp_all add: specPlatformDomain_def onScholarvox_def isSfsessid_def proxiedCookie_def
      normalizeDomain_def startsWith_def testPrefixCI_def regexCanon_def js_def suffix_def)

lemma sessionCookie_facts:
  "specPlatformDomain (domain sessionCookie)" "onScholarvox sessionCookie"
  "isSfsessid sessionCookie"
  by (simp_all add: specPlatformDomain_def onScholarvox_def isSfsessid_def sessionCookie_def
      normalizeDomain_def startsWith_def testPrefixCI_def regexCanon_def js_def)

text \<open>
  C3, as stated, fails in its last part: next to a session cookie on the platform
  domain, a session cookie on a proxied host such as
  \<^verbatim>\<open>univ.scholarvox.com.ezproxy.example.org\<close>, which is not on the platform domain,
  is listed in \<^verbatim>\<open>matched\<close> as well.
\<close>

theorem matched_lists_proxied_cookie_counterexample:
  "specPlatformDomain (domain sessionCookie) \<and> isSfsessid sessionCookie
   \<and> \<not> specPlatformDomain (domain proxiedCookie)
   \<and> matched (detectAuthFromCookies [sessionCookie, proxiedCookie])
       = [js ''SFSESSID_univ@scholarvox.com'',
          js ''sfsessid@univ.scholarvox.com.ezproxy.example.org'']"
proof -
  have "map matchedEntry [sessionCookie, proxiedCookie]
        = [js ''SFSESSID_univ@scholarvox.com'',
           js ''sfsessid@univ.scholarvox.com.ezproxy.example.org'']"
    by (simp add: matchedEntry_def sessionCookie_def proxiedCookie_def normalizeDomain_def
        startsWith_def js_def)
  then show ?thesis
    by (simp add: detectAuth_matched sessionCookie_facts proxiedCookie_facts)
qed

text \<open>
  C3, amended. Whenever the cookie list holds a cookie on the platform domain, or more
  generally one whose domain passes the detector's filter, with a name matching
  \<^verbatim>\<open>/^sfsessid/i\<close>, the result is authenticated, whatever else the list holds, and
  \<^verbatim>\<open>matched\<close> lists, in cookie order, the \<^verbatim>\<open>name@domain\<close> entry (domain
  without its leading dot) of exactly the session cookies whose domain passes the filter.
\<close>

theorem session_cookie_authenticates:
  assumes "c \<in> set all" and "specPlatformDomain (domain c) \<or> onScholarvox c" and "isSfsessid c"
  shows "authenticated (detectAuthFromCookies all) = True \<and>
         matched (detectAuthFromCookies all) =
           map matchedEntry (filter (\<lambda>c. onScholarvox c \<and> isSfsessid c) all)"
proof -
  from assms(2) have "onScholarvox c"
    by (auto intro: specPlatformDomain_onScholarvox)
  with assms(1,3) show ?thesis
    by (auto simp: detectAuth_authenticated_iff detectAuth_matched)
qed

theorem session_cookie_authenticates_witness:
  "sessionCookie \<in> set [xprivCookie, foreignSessionCookie, sessionCookie, posthogCookie, sessionCookie2]
   \<and> specPlatformDomain (domain sessionCookie) \<and> isSfsessid sessionCookie
   \<and> authenticated (detectAuthFromCookies
        [xprivCookie, foreignSessionCookie, sessionCookie, posthogCookie, sessionCookie2]) = True
   \<and> matched (detectAuthFromCookies
        [xprivCookie, foreignSessionCookie, sessionCookie, posthogCookie, sessionCookie2])
      = [js ''SFSESSID_univ@scholarvox.com'', js ''sfsessid@univ.scholarvox.com'']"
proof -
  have m: "sessionCookie \<in> set [xprivCookie, foreignSessionCookie, sessionCookie, posthogCookie, sessionCookie2]"
    by simp
  have p: "specPlatformDomain (domain sessionCookie) \<or> onScholarvox sessionCookie"
    by (simp add: sessionCookie_facts)
  have e: "map matchedEntry (filter (\<lambda>c. onScholarvox c \<and> isSfsessid c)
             [xprivCookie, foreignSessionCookie, sessionCookie, posthogCookie, sessionCookie2])
           = [js ''SFSESSID_univ@scholarvox.com'', js ''sfsessid@univ.scholarvox.com'']"
    by (simp add: onScholarvox_def isSfsessid_def matchedEntry_def sessionCookie_def
        sessionCookie2_def xprivCookie_def posthogCookie_def foreignSessionCookie_def
        normalizeDomain_def startsWith_def testPrefixCI_def regexCanon_def js_def)
  from session_cookie_authenticates [OF m p sessionCookie_facts(3)] m e sessionCookie_facts
  show ?thesis by simp
qed

text \<open>
  C4, as stated, fails: a list whose only session cookie sits on the proxied host holds
  no cookie on the platform domain with a \<^verbatim>\<open>sfsessid\<close> name, yet the result is
  authenticated.
\<close>

theorem proxied_session_cookie_counterexample:
  "\<not> specPlatformDomain (domain proxiedCookie)
   \<and> \<not> isSfsessid xprivCookie
   \<and> authenticated (detectAuthFromCookies [xprivCookie, proxiedCookie]) = True"
proof -
  have "\<not> isSfsessid xprivCookie"
    by (simp add: isSfsessid_def xprivCookie_def testPrefixCI_def regexCanon_def js_def)
  then show ?thesis
    using proxiedCookie_facts by (simp add: detectAuth_authenticated_iff)
qed

text \<open>
  C4, amended. When no cookie whose domain passes the detector's filter (the domain,
  without its leading dot, contains \<^verbatim>\<open>scholarvox.com\<close>) has a name matching
  \<^verbatim>\<open>/^sfsessid/i\<close>, the result is not authenticated; the \<^verbatim>\<open>_xpriv\<close>,
  \<^verbatim>\<open>posthog\<close> and \<^verbatim>\<open>visitor_unique\<close> cookies do not change that.
\<close>

theorem no_session_cookie_not_authenticated:
  assumes "\<forall>c \<in> set all. onScholarvox c \<longrightarrow> \<not> isSfsessid c"
  shows "authenticated (detectAuthFromCookies all) = False"
  using assms by (auto simp: detectAuth_authenticated_iff)

theorem no_session_cookie_not_authenticated_witness:
  "onScholarvox xprivCookie \<and> \<not> isSfsessid xprivCookie
   \<and> onScholarvox posthogCookie \<and> \<not> isSfsessid posthogCookie
   \<and> onScholarvox visitorCookie \<and> \<not> isSfsessid visitorCookie
   \<and> \<not> onScholarvox foreignSessionCookie
   \<and> authenticated (detectAuthFromCookies
        [xprivCookie, posthogCookie, visitorCookie, foreignSessionCookie]) = False"
proof -
  have p: "onScholarvox xprivCookie \<and> onScholarvox posthogCookie \<and> onScholarvox visitorCookie
      \<and> \<not> onScholarvox foreignSessionCookie"
    by (simp add: onScholarvox_def xprivCookie_def posthogCookie_def visitorCookie_def
        foreignSessionCookie_def normalizeDomain_def startsWith_def js_def)
  have s: "\<not> isSfsessid xprivCookie \<and> \<not> isSfsessid posthogCookie \<and> \<not> isSfsessid visitorCookie"
    by (simp add: isSfsessid_def xprivCookie_def posthogCookie_def visitorCookie_def
        testPrefixCI_def regexCanon_def js_def)
  from p s have h: "\<forall>c \<in> set [xprivCookie, posthogCookie, visitorCookie, foreignSessionCookie].
       onScholarvox c \<longrightarrow> \<not> isSfsessid c"
    by simp
  from no_session_cookie_not_authenticated [OF h] p s show ?thesis
    by simp
qed

text \<open>
  C5, as stated, fails: the filter is a substring test. The cookie on the proxied host
  is not on the platform by the suffix rule, yet it passes the filter and its presence
  changes the result.
\<close>

theorem platform_suffix_match_counterexample:
  "\<not> specPlatformDomain (domain proxiedCookie)
   \<and> onScholarvox proxiedCookie
   \<and> detectAuthFromCookies [proxiedCookie] \<noteq> detectAuthFromCookies ([] :: cookie list)"
proof -
  have "authenticated (detectAuthFromCookies [proxiedCookie])"
    "\<not> authenticated (detectAuthFromCookies ([] :: cookie list))"
    using proxiedCookie_facts by (simp_all add: detectAuth_authenticated_iff)
  then have "detectAuthFromCookies [proxiedCookie] \<noteq> detectAuthFromCookies ([] :: cookie list)"
    by metis
  with proxiedCookie_facts show ?thesis
    by simp
qed

lemma onScholarvox_iff:
  "onScholarvox c \<longleftrightarrow> (\<exists>pre suf. normalizeDomain (domain c) = pre @ js ''scholarvox.com'' @ suf)"
  by (simp add: onScholarvox_def str_includes_iff)

lemma proxiedCookie_domain:
  "normalizeDomain (domain proxiedCookie)
     = js ''univ.'' @ js ''scholarvox.com'' @ js ''.ezproxy.example.org''"
  by (simp add: proxiedCookie_def normalizeDomain_def startsWith_def js_def)

text \<open>
  C5, amended. A cookie counts as belonging to the platform exactly when its domain,
  after stripping a single leading dot, contains \<^verbatim>\<open>scholarvox.com\<close> as a
  substring, which every domain equal to \<^verbatim>\<open>scholarvox.com\<close> or ending with
  \<^verbatim>\<open>.scholarvox.com\<close> does. Every session cookie with such a domain makes the
  result authenticated and is listed in \<^verbatim>\<open>matched\<close>; the result is authenticated
  only if there is one, \<^verbatim>\<open>matched\<close> lists no other cookie, and the whole result
  is unchanged when the cookies without the substring are removed, so they never
  influence it.
\<close>

theorem platform_substring_match:
  "(authenticated (detectAuthFromCookies all) \<longleftrightarrow>
      (\<exists>c \<in> set all.
          (\<exists>pre suf. normalizeDomain (domain c) = pre @ js ''scholarvox.com'' @ suf)
          \<and> isSfsessid c))
   \<and> matched (detectAuthFromCookies all)
       = map matchedEntry
           (filter (\<lambda>c. (\<exists>pre suf. normalizeDomain (domain c) = pre @ js ''scholarvox.com'' @ suf)
                         \<and> isSfsessid c) all)
   \<and> (c \<in> set all
        \<and> (\<exists>pre suf. normalizeDomain (domain c) = pre @ js ''scholarvox.com'' @ suf)
        \<and> isSfsessid c
       \<longrightarrow> authenticated (detectAuthFromCookies all)
           \<and> matchedEntry c \<in> set (matched (detectAuthFromCookies all)))
   \<and> (specPlatformDomain (domain c)
       \<longrightarrow> (\<exists>pre suf. normalizeDomain (domain c) = pre @ js ''scholarvox.com'' @ suf))
   \<and> detectAuthFromCookies all
       = detectAuthFromCookies
           (filter (\<lambda>c. \<exists>pre suf. normalizeDomain (domain c) = pre @ js ''scholarvox.com'' @ suf)
              all)"
proof -
  have a: "authenticated (detectAuthFromCookies all) \<longleftrightarrow>
      (\<exists>c \<in> set all. onScholarvox c \<and> isSfsessid c)"
    by (rule detectAuth_authenticated_iff)
  have m: "matched (detectAuthFromCookies all)
       = map matchedEntry (filter (\<lambda>c. onScholarvox c \<and> isSfsessid c) all)"
    by (rule detectAuth_matched)
  have u: "c \<in> set all \<and> onScholarvox c \<and> isSfsessid c
       \<longrightarrow> authenticated (detectAuthFromCookies all)
           \<and> matchedEntry c \<in> set (matched (detectAuthFromCookies all))"
    unfolding a m by auto
  have p: "specPlatformDomain (domain c) \<longrightarrow> onScholarvox c"
    by (simp add: specPlatformDomain_onScholarvox)
  have f: "detectAuthFromCookies all = detectAuthFromCookies (filter onScholarvox all)"
    by (simp add: detectAuthFromCookies_def)
  from a m u p f show ?thesis
    unfolding onScholarvox_iff by blast
qed

theorem platform_substring_match_witness:
  "proxiedCookie \<in> set [foreignSessionCookie, proxiedCookie]
   \<and> normalizeDomain (domain proxiedCookie)
       = js ''univ.'' @ js ''scholarvox.com'' @ js ''.ezproxy.example.org''
   \<and> isSfsessid proxiedCookie
   \<and> authenticated (detectAuthFromCookies [foreignSessionCookie, proxiedCookie])
   \<and> matchedEntry proxiedCookie
       \<in> set (matched (detectAuthFromCookies [foreignSessionCookie, proxiedCookie]))
   \<and> specPlatformDomain (domain sessionCookie2)
   \<and> (\<exists>pre suf. normalizeDomain (domain sessionCookie2) = pre @ js ''scholarvox.com'' @ suf)"
proof -
  have e: "\<exists>pre suf. normalizeDomain (domain proxiedCookie) = pre @ js ''scholarvox.com'' @ suf"
    unfolding proxiedCookie_domain by blast
  have i: "proxiedCookie \<in> set [foreignSessionCookie, proxiedCookie]"
    by simp
  have a: "specPlatformDomain (domain sessionCookie2)"
    by (simp add: specPlatformDomain_def sessionCookie2_def normalizeDomain_def startsWith_def
        js_def suffix_def)
  from platform_substring_match [of "[foreignSessionCookie, proxiedCookie]" proxiedCookie]
    i e proxiedCookie_facts(3)
  have 1: "authenticated (detectAuthFromCookies [foreignSessionCookie, proxiedCookie])"
    "matchedEntry proxiedCookie
       \<in> set (matched (detectAuthFromCookies [foreignSessionCookie, proxiedCookie]))"
    by blast+
  from platform_substring_match [of "[]" sessionCookie2] a
  have 2: "\<exists>pre suf. normalizeDomain (domain sessionCookie2) = pre @ js ''scholarvox.com'' @ suf"
    by blast
  from i proxiedCookie_domain proxiedCookie_facts(3) 1 a 2 show ?thesis
    by blast
qed

section \<open>Catalog Prober: properties\<close>

text \<open>
  C9. When the navigation fails or the response is not OK, the probe answers
  \<open>NOT_FOUND\<close>, whatever the page holds.
\<close>

theorem failed_navigation_not_found:
  assumes "gotoResponse p = None \<or> gotoResponse p = Some False"
  shows "checkBookStatus p = Inr NOT_FOUND"
  using assms by (auto simp: checkBookStatus_def)

theorem failed_navigation_not_found_witness:
  "gotoResponse removedPageNavFailed = None
   \<and> removedVisible removedPageNavFailed
   \<and> checkBookStatus removedPageNavFailed = Inr NOT_FOUND
   \<and> gotoResponse foundPageHttpError = Some False
   \<and> titleTextContent foundPageHttpError = Some (js ''A title'')
   \<and> checkBookStatus foundPageHttpError = Inr NOT_FOUND"
proof -
  have a: "gotoResponse removedPageNavFailed = None" "removedVisible removedPageNavFailed"
    by (simp_all add: removedPageNavFailed_def removedPage_def)
  have b: "gotoResponse foundPageHttpError = Some False"
    "titleTextContent foundPageHttpError = Some (js ''A title'')"
    by (simp_all add: foundPageHttpError_def)
  from a(1) have a': "gotoResponse removedPageNavFailed = None \<or> gotoResponse removedPageNavFailed = Some False"
    by simp
  from b(1) have b': "gotoResponse foundPageHttpError = None \<or> gotoResponse foundPageHttpError = Some False"
    by simp
  from failed_navigation_not_found [OF a'] failed_navigation_not_found [OF b'] a b
  show ?thesis by simp
qed

lemma removedMessage_nonempty: "removedMessage \<noteq> []"
  by (simp add: removedMessage_def js_def)

lemma toLowerCase_soonSentence: "toLowerCase soonSentence = soonMessage"
  by (simp add: toLowerCase_def soonSentence_def soonMessage_def js_def toLowerCaseUnit_def)

lemma soonSentence_found:
  assumes "str_includes content soonSentence"
  shows "str_includes (toLowerCase content) soonMessage"
  using str_includes_map [OF assms, of toLowerCaseUnit]
  by (simp add: toLowerCase_soonSentence [unfolded toLowerCase_def] toLowerCase_def)

text \<open>
  Where the response is OK and the final address does not match the error pattern, the
  markers are decided before the title: a visible \<^verbatim>\<open>.removedFlag\<close> element or
  not-available panel gives \<open>REMOVED\<close>, and the sentence in the page content with
  neither visible gives \<open>AVAILABLE_SOON\<close>, whatever the title element holds.
\<close>

lemma markers_before_title_off_pattern:
  assumes "gotoResponse p = Some True" and "\<not> errorUrlPattern (finalUrl p)"
  shows "(removedVisible p \<or> notAvailVisible p \<longrightarrow> checkBookStatus p = Inr REMOVED)
       \<and> (\<not> removedVisible p \<and> \<not> notAvailVisible p \<and> pageContent p = Some content
            \<and> str_includes content soonSentence
          \<longrightarrow> checkBookStatus p = Inr AVAILABLE_SOON)"
  using assms by (auto simp: checkBookStatus_def soonSentence_found removedMessage_nonempty)

lemma catalogUrl_no_error: "\<not> errorUrlPattern catalogUrl"
  by (simp add: errorUrlPattern_def catalogUrl_def testSearchCI_def regexCanon_def js_def)

lemma catalogUrl404_error: "errorUrlPattern catalogUrl404"
  by (simp add: errorUrlPattern_def catalogUrl404_def testSearchCI_def regexCanon_def js_def)

lemma soonPage_content:
  "pageContent soonPage = Some (js ''<h2>A title</h2><p>'' @ soonSentence @ js ''.</p>'')"
  "str_includes (js ''<h2>A title</h2><p>'' @ soonSentence @ js ''.</p>'') soonSentence"
proof -
  show "pageContent soonPage = Some (js ''<h2>A title</h2><p>'' @ soonSentence @ js ''.</p>'')"
    by (simp add: soonPage_def)
  show "str_includes (js ''<h2>A title</h2><p>'' @ soonSentence @ js ''.</p>'') soonSentence"
    unfolding str_includes_iff by blast
qed

lemma ordinary_pages:
  "checkBookStatus removedPage = Inr REMOVED" "checkBookStatus soonPage = Inr AVAILABLE_SOON"
  "checkBookStatus notAvailPage = Inr REMOVED"
proof -
  have n: "gotoResponse notAvailPage = Some True" "\<not> errorUrlPattern (finalUrl notAvailPage)"
    "notAvailVisible notAvailPage"
    by (simp_all add: notAvailPage_def catalogUrl_no_error)
  from markers_before_title_off_pattern [OF n(1) n(2)] n(3)
  show "checkBookStatus notAvailPage = Inr REMOVED" by simp
  have r: "gotoResponse removedPage = Some True" "\<not> errorUrlPattern (finalUrl removedPage)"
    "removedVisible removedPage"
    by (simp_all add: removedPage_def catalogUrl_no_error)
  from markers_before_title_off_pattern [OF r(1) r(2)] r(3)
  show "checkBookStatus removedPage = Inr REMOVED" by simp
  have s: "gotoResponse soonPage = Some True" "\<not> errorUrlPattern (finalUrl soonPage)"
    "\<not> removedVisible soonPage" "\<not> notAvailVisible soonPage"
    by (simp_all add: soonPage_def catalogUrl_no_error)
  from markers_before_title_off_pattern [OF s(1) s(2)] s(3) s(4) soonPage_content
  show "checkBookStatus soonPage = Inr AVAILABLE_SOON" by simp
qed

text \<open>
  C6. The markers are decided before the title, but not for every catalog page: the
  test \<^verbatim>\<open>/404|not[-_ ]found|error/i\<close> runs on the whole final address, document id
  included. For the book with id \<^verbatim>\<open>88840412\<close> the response is OK and the address is
  the ordinary catalog address, yet the page with the visible \<^verbatim>\<open>.removedFlag\<close>
  element is answered \<open>NOT_FOUND\<close> instead of \<open>REMOVED\<close>, and the page with the
  available-soon sentence \<open>NOT_FOUND\<close> instead of \<open>AVAILABLE_SOON\<close>; the same
  pages under the id \<^verbatim>\<open>88812345\<close> get \<open>REMOVED\<close> and \<open>AVAILABLE_SOON\<close>.
\<close>

theorem docid_404_answered_not_found:
  "gotoResponse removedPage404 = Some True
   \<and> finalUrl removedPage404 = js ''https://univ.scholarvox.com/catalog/book/docid/88840412''
   \<and> removedVisible removedPage404
   \<and> checkBookStatus removedPage404 = Inr NOT_FOUND
   \<and> checkBookStatus removedPage = Inr REMOVED
   \<and> gotoResponse soonPage404 = Some True
   \<and> finalUrl soonPage404 = js ''https://univ.scholarvox.com/catalog/book/docid/88840412''
   \<and> \<not> removedVisible soonPage404 \<and> \<not> notAvailVisible soonPage404
   \<and> str_includes (the (pageContent soonPage404)) soonSentence
   \<and> checkBookStatus soonPage404 = Inr NOT_FOUND
   \<and> checkBookStatus soonPage = Inr AVAILABLE_SOON"
proof -
  have r: "gotoResponse removedPage404 = Some True" "finalUrl removedPage404 = catalogUrl404"
    "removedVisible removedPage404"
    by (simp_all add: removedPage404_def removedPage_def)
  have s: "gotoResponse soonPage404 = Some True" "finalUrl soonPage404 = catalogUrl404"
    "\<not> removedVisible soonPage404" "\<not> notAvailVisible soonPage404"
    "pageContent soonPage404 = pageContent soonPage"
    by (simp_all add: soonPage404_def soonPage_def)
  have 1: "checkBookStatus removedPage404 = Inr NOT_FOUND"
    by (simp add: checkBookStatus_def r catalogUrl404_error)
  have 2: "checkBookStatus soonPage404 = Inr NOT_FOUND"
    by (simp add: checkBookStatus_def s(1,2) catalogUrl404_error)
  have 3: "str_includes (the (pageContent soonPage404)) soonSentence"
    by (simp add: s(5) soonPage_content)
  from r s(1-4) 1 2 3 ordinary_pages show ?thesis
    by (simp add: catalogUrl404_def)
qed

section \<open>Reader Navigator: properties\<close>

lemma reloads_le_1: "reloads run \<le> 1"
  by (simp add: reloads_def downloadBookPageCount_def isReload_def
      split: option.splits)

text \<open>
  C7. When the first count is zero the run reloads the iframe page exactly once; when
  the reloaded page is counted, that count is read once and, if it is zero again, the
  run ends with the error, otherwise it goes on with the new count. No run reloads
  more than once.
\<close>

theorem zero_pages_one_reload:
  "(iframeSrc run = Some u \<and> u \<noteq> [] \<and> firstCount run = Some 0 \<longrightarrow>
      reloads run = 1
      \<and> (\<forall>c. secondCount run = Some c \<longrightarrow>
            fst (downloadBookPageCount run)
              = [OpenIframePage, ReadPageCount 0, ReloadIframePage, ReadPageCount c]
            \<and> (c = 0 \<longrightarrow> snd (downloadBookPageCount run) = Inl StillZeroPagesAfterRetry)
            \<and> (c \<noteq> 0 \<longrightarrow> snd (downloadBookPageCount run) = Inr c))
      \<and> (secondCount run = None \<longrightarrow> snd (downloadBookPageCount run) = Inl PlaywrightRejected))
   \<and> reloads run \<le> 1"
proof -
  have "reloads run = 1
      \<and> (\<forall>c. secondCount run = Some c \<longrightarrow>
            fst (downloadBookPageCount run)
              = [OpenIframePage, ReadPageCount 0, ReloadIframePage, ReadPageCount c]
            \<and> (c = 0 \<longrightarrow> snd (downloadBookPageCount run) = Inl StillZeroPagesAfterRetry)
            \<and> (c \<noteq> 0 \<longrightarrow> snd (downloadBookPageCount run) = Inr c))
      \<and> (secondCount run = None \<longrightarrow> snd (downloadBookPageCount run) = Inl PlaywrightRejected)"
    if "iframeSrc run = Some u" "u \<noteq> []" "firstCount run = Some 0"
    using that
    by (cases "secondCount run")
      (simp_all add: reloads_def downloadBookPageCount_def isReload_def)
  with reloads_le_1 [of run] show ?thesis
    by blast
qed

theorem zero_pages_one_reload_witness:
  "reloads \<lparr>iframeSrc = Some readerUrl, firstCount = Some 0, secondCount = Some 0\<rparr> = 1
   \<and> downloadBookPageCount \<lparr>iframeSrc = Some readerUrl, firstCount = Some 0, secondCount = Some 0\<rparr>
       = ([OpenIframePage, ReadPageCount 0, ReloadIframePage, ReadPageCount 0],
          Inl StillZeroPagesAfterRetry)
   \<and> reloads \<lparr>iframeSrc = Some readerUrl, firstCount = Some 0, secondCount = Some 212\<rparr> = 1
   \<and> downloadBookPageCount \<lparr>iframeSrc = Some readerUrl, firstCount = Some 0, secondCount = Some 212\<rparr>
       = ([OpenIframePage, ReadPageCount 0, ReloadIframePage, ReadPageCount 212], Inr 212)"
proof -
  have u: "readerUrl \<noteq> []"
    by (simp add: readerUrl_def js_def)
  from zero_pages_one_reload
    [of "\<lparr>iframeSrc = Some readerUrl, firstCount = Some 0, secondCount = Some 0\<rparr>" readerUrl] u
  have 1: "reloads \<lparr>iframeSrc = Some readerUrl, firstCount = Some 0, secondCount = Some 0\<rparr> = 1"
    "fst (downloadBookPageCount \<lparr>iframeSrc = Some readerUrl, firstCount = Some 0, secondCount = Some 0\<rparr>)
       = [OpenIframePage, ReadPageCount 0, ReloadIframePage, ReadPageCount 0]"
    "snd (downloadBookPageCount \<lparr>iframeSrc = Some readerUrl, firstCount = Some 0, secondCount = Some 0\<rparr>)
       = Inl StillZeroPagesAfterRetry"
    by simp_all
  from zero_pages_one_reload
    [of "\<lparr>iframeSrc = Some readerUrl, firstCount = Some 0, secondCount = Some 212\<rparr>" readerUrl] u
  have 2: "reloads \<lparr>iframeSrc = Some readerUrl, firstCount = Some 0, secondCount = Some 212\<rparr> = 1"
    "fst (downloadBookPageCount \<lparr>iframeSrc = Some readerUrl, firstCount = Some 0, secondCount = Some 212\<rparr>)
       = [OpenIframePage, ReadPageCount 0, ReloadIframePage, ReadPageCount 212]"
    "snd (downloadBookPageCount \<lparr>iframeSrc = Some readerUrl, firstCount = Some 0, secondCount = Some 212\<rparr>)
       = Inr 212"
    by simp_all
  from 1 2 show ?thesis
    by (simp add: prod_eq_iff)
qed

section \<open>Numbers: rounding\<close>

lemma ilog2_lower:
  assumes "0 < a"
  shows "2 powi (ilog2 a) \<le> a"
proof -
  obtain p q where pq: "quotient_of a = (p, q)"
    by (cases "quotient_of a")
  then have q: "0 < q" and a: "a = of_int p / of_int q"
    by (simp_all add: quotient_of_denom_pos quotient_of_div)
  with assms have p: "0 < p"
    by (simp add: zero_less_divide_iff)
  define k where "k = bitlen p - bitlen q"
  show ?thesis
  proof (cases "2 powi k \<le> a")
    case True
    then show ?thesis
      by (simp add: ilog2_def pq k_def [symmetric] Let_def)
  next
    case False
    have "(2::rat) ^ nat (bitlen p - 1) \<le> of_int p"
      using bitlen_bounds [OF p] by (metis of_int_le_iff of_int_numeral of_int_power)
    moreover have "of_int q \<le> (2::rat) ^ nat (bitlen q)"
      using bitlen_bounds [OF q] by (metis less_imp_le of_int_le_iff of_int_numeral of_int_power)
    moreover have "0 < bitlen p" "0 < bitlen q"
      using p q bitlen_eq_zero_iff [of p] bitlen_eq_zero_iff [of q] bitlen_nonneg [of p] bitlen_nonneg [of q]
      by linarith+
    ultimately have "(2::rat) powi (bitlen p - 1) \<le> of_int p" "of_int q \<le> (2::rat) powi (bitlen q)"
      by (simp_all add: power_int_def)
    then have "(2::rat) powi (bitlen p - 1) / 2 powi (bitlen q) \<le> of_int p / of_int q"
      using p q by (intro frac_le) simp_all
    moreover have "(2::rat) powi (bitlen p - 1) / 2 powi (bitlen q) = 2 powi (k - 1)"
      by (simp add: k_def power_int_diff)
    ultimately have "2 powi (k - 1) \<le> a"
      by (simp add: a)
    with False show ?thesis
      by (simp add: ilog2_def pq k_def [symmetric] Let_def)
  qed
qed

lemma roundHalfEven_near: "\<bar>of_int (roundHalfEven m) - m\<bar> \<le> 1 / 2"
proof -
  define f where "f = \<lfloor>m\<rfloor>"
  define r where "r = m - of_int f"
  define k where "k = roundHalfEven m"
  have r: "0 \<le> r" "r < 1"
    unfolding r_def f_def by linarith+
  have k: "k = f \<or> k = f + 1" "r < 1 / 2 \<Longrightarrow> k = f" "1 / 2 < r \<Longrightarrow> k = f + 1"
    by (auto simp: k_def roundHalfEven_def Let_def f_def r_def)
  have d: "of_int f - m = - r" "of_int (f + 1) - m = 1 - r"
    by (simp_all add: r_def)
  consider "r < 1 / 2" | "1 / 2 < r" | "r = 1 / 2"
    by linarith
  then have "\<bar>of_int k - m\<bar> \<le> 1 / 2"
  proof cases
    case 1
    with k(2) r d(1) show ?thesis by simp
  next
    case 2
    with k(3) r d(2) show ?thesis by simp
  next
    case 3
    with k(1) d show ?thesis by auto
  qed
  then show ?thesis
    by (simp add: k_def)
qed

lemma roundDouble_error: "\<bar>roundDouble x - x\<bar> \<le> \<bar>x\<bar> / 2 ^ 53"
proof (cases "x = 0")
  case True
  then show ?thesis by (simp add: roundDouble_def)
next
  case False
  define a where "a = \<bar>x\<bar>"
  define e where "e = ilog2 a - 52"
  define u :: rat where "u = 2 powi e"
  define n where "n = roundHalfEven (a / u)"
  have a: "0 < a" using False by (simp add: a_def)
  have u: "0 < u" by (simp add: u_def)
  have rd: "roundDouble x = sgn x * (of_int n * u)"
    using False by (simp add: roundDouble_def Let_def n_def u_def e_def a_def)
  have near: "\<bar>of_int n - a / u\<bar> \<le> 1 / 2"
    unfolding n_def by (rule roundHalfEven_near)
  have x: "x = sgn x * a"
    by (simp add: a_def sgn_mult_abs)
  have "roundDouble x - x = sgn x * (of_int n * u - a)"
    by (subst (2) x) (simp add: rd right_diff_distrib)
  then have "\<bar>roundDouble x - x\<bar> = \<bar>of_int n * u - a\<bar>"
    using False by (simp add: abs_mult abs_sgn_eq)
  also have "of_int n * u - a = (of_int n - a / u) * u"
    using u by (simp add: left_diff_distrib)
  also have "\<bar>(of_int n - a / u) * u\<bar> = \<bar>of_int n - a / u\<bar> * u"
    using u by (simp add: abs_mult)
  also have "\<dots> \<le> 1 / 2 * u"
    using near u by (intro mult_right_mono) simp_all
  also have "\<dots> = 2 powi (ilog2 a) / 2 ^ 53"
    by (simp add: u_def e_def power_int_diff)
  also have "\<dots> \<le> a / 2 ^ 53"
    using ilog2_lower [OF a] by (simp add: divide_right_mono)
  finally show ?thesis
    by (simp add: a_def)
qed


lemma ilog2_upper:
  assumes "0 < a"
  shows "a < 2 powi (ilog2 a + 1)"
proof -
  obtain p q where pq: "quotient_of a = (p, q)"
    by (cases "quotient_of a")
  then have q: "0 < q" and a: "a = of_int p / of_int q"
    by (simp_all add: quotient_of_denom_pos quotient_of_div)
  with assms have p: "0 < p"
    by (simp add: zero_less_divide_iff)
  define k where "k = bitlen p - bitlen q"
  show ?thesis
  proof (cases "2 powi k \<le> a")
    case True
    have "of_int p < (2::rat) ^ nat (bitlen p)"
      using bitlen_bounds [OF p] by (metis of_int_less_iff of_int_numeral of_int_power)
    moreover have "(2::rat) ^ nat (bitlen q - 1) \<le> of_int q"
      using bitlen_bounds [OF q] by (metis of_int_le_iff of_int_numeral of_int_power)
    moreover have "0 < bitlen p" "0 < bitlen q"
      using p q bitlen_eq_zero_iff [of p] bitlen_eq_zero_iff [of q] bitlen_nonneg [of p] bitlen_nonneg [of q]
      by linarith+
    ultimately have "of_int p < (2::rat) powi (bitlen p)" "(2::rat) powi (bitlen q - 1) \<le> of_int q"
      by (simp_all add: power_int_def)
    then have "of_int p / of_int q < (2::rat) powi (bitlen p) / 2 powi (bitlen q - 1)"
      using p q by (intro frac_less) simp_all
    moreover have "k + 1 = bitlen p - (bitlen q - 1)"
      by (simp add: k_def)
    then have "(2::rat) powi (bitlen p) / 2 powi (bitlen q - 1) = 2 powi (k + 1)"
      by (simp only: power_int_diff [of "2::rat", symmetric, simplified])
    ultimately have "a < 2 powi (k + 1)"
      by (simp add: a)
    with True show ?thesis
      by (simp add: ilog2_def pq k_def [symmetric] Let_def)
  next
    case False
    then show ?thesis
      by (simp add: ilog2_def pq k_def [symmetric] Let_def)
  qed
qed

lemma significand_53_bits:
  assumes "x \<noteq> 0"
  shows "2 ^ 52 \<le> \<bar>x\<bar> / 2 powi (ilog2 \<bar>x\<bar> - 52)" "\<bar>x\<bar> / 2 powi (ilog2 \<bar>x\<bar> - 52) < 2 ^ 53"
proof -
  have a: "0 < \<bar>x\<bar>" using assms by simp
  have e: "(2::rat) powi (ilog2 \<bar>x\<bar> - 52) = 2 powi (ilog2 \<bar>x\<bar>) / 2 ^ 52"
    "(2::rat) powi (ilog2 \<bar>x\<bar> + 1) = 2 powi (ilog2 \<bar>x\<bar>) * 2"
    by (simp_all add: power_int_diff power_int_add)
  have z: "(0::rat) < 2 powi (ilog2 \<bar>x\<bar>)" by simp
  show "2 ^ 52 \<le> \<bar>x\<bar> / 2 powi (ilog2 \<bar>x\<bar> - 52)"
    using ilog2_lower [OF a] z unfolding e by (simp add: field_simps)
  show "\<bar>x\<bar> / 2 powi (ilog2 \<bar>x\<bar> - 52) < 2 ^ 53"
    using ilog2_upper [OF a] z unfolding e by (simp add: field_simps)
qed

section \<open>Page Capture: properties\<close>

lemma literal_0_4: "roundDouble (2 / 5) = 3602879701896397 / 9007199254740992"
  by code_simp

lemma literal_0_8: "roundDouble (4 / 5) = 3602879701896397 / 4503599627370496"
  by code_simp

lemma autoScale_error:
  "\<bar>autoScale d - 2 / 5 * (width d / 1080)\<bar> \<le> \<bar>2 / 5 * (width d / 1080)\<bar> / 2 ^ 51"
proof -
  define Y where "Y = width d / 1080"
  define q where "q = roundDouble Y"
  define c :: rat where "c = 3602879701896397 / 9007199254740992"
  define s where "s = roundDouble (c * q)"
  have c: "roundDouble (2 / 5) = c"
    unfolding c_def by code_simp
  have s: "autoScale d = s"
    by (simp add: autoScale_def num_mul_def num_div_def referenceScale_def referenceWidth_def
        c s_def q_def Y_def)
  have 1: "\<bar>q - Y\<bar> \<le> \<bar>Y\<bar> / 2 ^ 53"
    unfolding q_def by (rule roundDouble_error)
  have 2: "\<bar>s - c * q\<bar> \<le> \<bar>c * q\<bar> / 2 ^ 53"
    unfolding s_def by (rule roundDouble_error)
  have cpos: "0 \<le> c" "0 \<le> c - 2 / 5"
    by (simp_all add: c_def)
  have 3: "\<bar>c * q\<bar> = c * \<bar>q\<bar>"
    by (simp add: abs_mult cpos)
  have 4: "\<bar>q\<bar> \<le> \<bar>Y\<bar> + \<bar>Y\<bar> / 2 ^ 53"
    using 1 by linarith
  have 5: "c * q - 2 / 5 * Y = c * (q - Y) + (c - 2 / 5) * Y"
    by (simp add: algebra_simps)
  have "\<bar>c * (q - Y)\<bar> = c * \<bar>q - Y\<bar>" "\<bar>(c - 2 / 5) * Y\<bar> = (c - 2 / 5) * \<bar>Y\<bar>"
    by (simp_all only: abs_mult abs_of_nonneg [OF cpos(1)] abs_of_nonneg [OF cpos(2)])
  then have 6: "\<bar>c * q - 2 / 5 * Y\<bar> \<le> c * \<bar>q - Y\<bar> + (c - 2 / 5) * \<bar>Y\<bar>"
    unfolding 5 using abs_triangle_ineq [of "c * (q - Y)" "(c - 2 / 5) * Y"] by simp
  have "\<bar>s - 2 / 5 * Y\<bar> \<le> \<bar>s - c * q\<bar> + \<bar>c * q - 2 / 5 * Y\<bar>"
    by linarith
  also have "\<dots> \<le> c * \<bar>q\<bar> / 2 ^ 53 + (c * \<bar>q - Y\<bar> + (c - 2 / 5) * \<bar>Y\<bar>)"
    using 2 6 unfolding 3 by linarith
  also have "\<dots> \<le> 2 / 5 * \<bar>Y\<bar> / 2 ^ 51"
    using 1 4 unfolding c_def by (simp add: field_simps)
  finally show ?thesis
    by (simp add: s Y_def [symmetric] abs_mult)
qed

lemma reference_page:
  "roundDouble (1080 / 96) = 45 / 4" "roundDouble (1332 / 96) = 111 / 8"
  "roundDouble (roundDouble (2 / 5) * roundDouble (1080 / 1080)) = roundDouble (2 / 5)"
  "roundDouble (roundDouble (2 / 5) * roundDouble (2160 / 1080)) = roundDouble (4 / 5)"
  by code_simp+

text \<open>
  C1. For every detected pixel size the page size handed to the PDF primitive is the
  binary64 quotient of the pixel width and of the pixel height by 96, each within a
  relative error of \<open>1 / 2 ^ 53\<close> of \<open>w / 96\<close> and \<open>h / 96\<close>, and the automatic
  scale is the binary64 product of \<^verbatim>\<open>0.4\<close> and the quotient of the width by 1080,
  within \<open>1 / 2 ^ 51\<close> of \<open>0.4 \<times> (w / 1080)\<close>. The pixel size 1080 by 1332 gives
  11.25in by 13.875in; the widths 1080 and 2160 give the scales \<^verbatim>\<open>0.4\<close> and
  \<^verbatim>\<open>0.8\<close> exactly.
\<close>

theorem page_size_and_auto_scale:
  "widthInches (pdfCall s d) = roundDouble (width d / 96)
   \<and> heightInches (pdfCall s d) = roundDouble (height d / 96)
   \<and> \<bar>widthInches (pdfCall s d) - width d / 96\<bar> \<le> \<bar>width d / 96\<bar> / 2 ^ 53
   \<and> \<bar>heightInches (pdfCall s d) - height d / 96\<bar> \<le> \<bar>height d / 96\<bar> / 2 ^ 53
   \<and> autoScale d = roundDouble (roundDouble (2 / 5) * roundDouble (width d / 1080))
   \<and> \<bar>autoScale d - 2 / 5 * (width d / 1080)\<bar> \<le> \<bar>2 / 5 * (width d / 1080)\<bar> / 2 ^ 51
   \<and> widthInches (pdfCall s \<lparr>width = 1080, height = 1332\<rparr>) = 45 / 4
   \<and> heightInches (pdfCall s \<lparr>width = 1080, height = 1332\<rparr>) = 111 / 8
   \<and> \<bar>widthInches (pdfCall s \<lparr>width = 1080, height = 1332\<rparr>) - 1125 / 100\<bar> \<le> 1 / 100
   \<and> \<bar>heightInches (pdfCall s \<lparr>width = 1080, height = 1332\<rparr>) - 13875 / 1000\<bar> \<le> 1 / 100
   \<and> autoScale \<lparr>width = 1080, height = h\<rparr> = roundDouble (2 / 5)
   \<and> autoScale \<lparr>width = 2160, height = h\<rparr> = roundDouble (4 / 5)"
proof -
  have w: "widthInches (pdfCall s d) = roundDouble (width d / 96)"
    and h: "heightInches (pdfCall s d) = roundDouble (height d / 96)" for d
    by (simp_all add: pdfCall_def pageWidthInches_def pageHeightInches_def num_div_def)
  have a: "autoScale d = roundDouble (roundDouble (2 / 5) * roundDouble (width d / 1080))" for d
    by (simp add: autoScale_def num_mul_def num_div_def referenceScale_def referenceWidth_def)
  have we: "\<bar>widthInches (pdfCall s d) - width d / 96\<bar> \<le> \<bar>width d / 96\<bar> / 2 ^ 53"
    and he: "\<bar>heightInches (pdfCall s d) - height d / 96\<bar> \<le> \<bar>height d / 96\<bar> / 2 ^ 53"
    unfolding w h by (rule roundDouble_error)+
  have rw: "widthInches (pdfCall s \<lparr>width = 1080, height = 1332\<rparr>) = 45 / 4"
    and rh: "heightInches (pdfCall s \<lparr>width = 1080, height = 1332\<rparr>) = 111 / 8"
    unfolding w h by (simp_all only: pageDimensions.simps reference_page)
  have s1: "autoScale \<lparr>width = 1080, height = h\<rparr> = roundDouble (2 / 5)"
    and s2: "autoScale \<lparr>width = 2160, height = h\<rparr> = roundDouble (4 / 5)"
    unfolding a by (simp_all only: pageDimensions.simps reference_page)
  have tw: "\<bar>widthInches (pdfCall s \<lparr>width = 1080, height = 1332\<rparr>) - 1125 / 100\<bar> \<le> 1 / 100"
    and th: "\<bar>heightInches (pdfCall s \<lparr>width = 1080, height = 1332\<rparr>) - 13875 / 1000\<bar> \<le> 1 / 100"
    unfolding rw rh by simp_all
  from w h we he a autoScale_error rw rh tw th s1 s2 show ?thesis
    by blast
qed

text \<open>
  C8. The scale handed to the PDF primitive is the caller's value whenever that value
  is not \<^verbatim>\<open>0.4\<close>, and the computed \<open>autoScale\<close> when the caller passes
  \<^verbatim>\<open>0.4\<close> or leaves the argument out.
\<close>

theorem caller_scale_overrides_unless_default:
  "(s \<noteq> roundDouble (2 / 5) \<longrightarrow> scale (pdfCall (Some s) d) = s)
   \<and> scale (pdfCall (Some (roundDouble (2 / 5))) d) = autoScale d
   \<and> scale (pdfCall None d) = autoScale d
   \<and> autoScale d = num_mul (roundDouble (2 / 5)) (num_div (width d) 1080)"
  by (simp add: pdfCall_def finalScale_def autoScale_def referenceScale_def referenceWidth_def)

theorem caller_scale_overrides_unless_default_witness:
  "(1 / 2 :: rat) \<noteq> roundDouble (2 / 5)
   \<and> scale (pdfCall (Some (1 / 2)) \<lparr>width = 2160, height = 2664\<rparr>) = 1 / 2
   \<and> scale (pdfCall (Some (roundDouble (2 / 5))) \<lparr>width = 2160, height = 2664\<rparr>) = roundDouble (4 / 5)"
proof -
  have n: "(1 / 2 :: rat) \<noteq> roundDouble (2 / 5)"
    by (simp add: literal_0_4)
  have "num_mul (roundDouble (2 / 5)) (num_div 2160 1080) = roundDouble (4 / 5)"
    unfolding num_mul_def num_div_def by code_simp
  then have a: "num_mul (roundDouble (2 / 5)) (num_div (width \<lparr>width = 2160, height = 2664\<rparr>) 1080)
           = roundDouble (4 / 5)"
    by (simp only: pageDimensions.simps)
  from caller_scale_overrides_unless_default [of "1 / 2" "\<lparr>width = 2160, height = 2664\<rparr>"] n a
  show ?thesis by simp
qed

section \<open>Render Stabilizer: properties\<close>

lemma blank_not_coloured: "blankPixel d \<Longrightarrow> \<not> coloured d"
  by (auto simp: blankPixel_def coloured_def)

lemma blank_samples_no_colour:
  assumes "list_all (\<lambda>s. blankPixel (sampledPixel cv s)) (samples cv)"
  shows "\<not> canvasHasNonWhitePixel cv"
proof -
  from assms have "filter (\<lambda>s. coloured (sampledPixel cv s)) (samples cv) = []"
    by (auto simp: filter_empty_conv list_all_iff blank_not_coloured)
  then show ?thesis
    by (simp add: canvasHasNonWhitePixel_def)
qed

lemma renderLoop_all_fail:
  "(\<And>j. i \<le> j \<Longrightarrow> j < i + n \<Longrightarrow> attempt (docs j) = None) \<Longrightarrow>
   renderLoop n docs i = RenderFailed (js ''timed out waiting for rendered page'')"
proof (induction n arbitrary: i)
  case 0
  then show ?case by simp
next
  case (Suc n)
  have "attempt (docs i) = None"
    using Suc.prems [of i] by simp
  moreover have "renderLoop n docs (Suc i) = RenderFailed (js ''timed out waiting for rendered page'')"
    using Suc.prems by (intro Suc.IH) simp_all
  ultimately show ?case by simp
qed

text \<open>
  C2. A canvas whose three sampled pixels are each transparent or near-white fails the
  pixel check and the validation; an iteration that picks it as candidate returns
  nothing and the loop goes on with the next iteration. When every iteration picks such
  a canvas the loop ends with the time-out result.
\<close>

theorem blank_canvas_not_accepted:
  assumes "list_all (\<lambda>s. blankPixel (sampledPixel cv s)) (samples cv)"
  shows "\<not> canvasHasNonWhitePixel cv
       \<and> validate (CanvasCand cv) = None
       \<and> (pickLargeCandidate (docs i) = Some (CanvasCand cv) \<longrightarrow>
            attempt (docs i) = None
            \<and> renderLoop (Suc n) docs i = renderLoop n docs (Suc i))
       \<and> ((\<forall>j<30. pickLargeCandidate (docs j) = Some (CanvasCand cv)) \<longrightarrow>
            lazyRender docs = RenderFailed (js ''timed out waiting for rendered page''))"
proof -
  have c: "\<not> canvasHasNonWhitePixel cv"
    by (rule blank_samples_no_colour [OF assms])
  then have v: "validate (CanvasCand cv) = None"
    by simp
  have "lazyRender docs = RenderFailed (js ''timed out waiting for rendered page'')"
    if "\<forall>j<30. pickLargeCandidate (docs j) = Some (CanvasCand cv)"
    unfolding lazyRender_def
    by (rule renderLoop_all_fail) (simp add: attempt_def that v del: validate.simps)
  with c v show ?thesis
    by (simp add: attempt_def del: validate.simps)
qed

lemma mul_2000_3000: "num_mul 2000 3000 = 6000000"
  unfolding num_mul_def by code_simp

lemma area_whiteCanvas: "area (CanvasCand whiteCanvas) = 6000000"
  by (simp add: whiteCanvas_def mul_2000_3000)

lemma sample_coords:
  "nat \<lfloor>num_mul 2000 (1 / 4)\<rfloor> = 500" "nat \<lfloor>num_mul 3000 (1 / 4)\<rfloor> = 750"
  "nat \<lfloor>num_mul 2000 (1 / 2)\<rfloor> = 1000" "nat \<lfloor>num_mul 3000 (1 / 2)\<rfloor> = 1500"
  "nat \<lfloor>num_mul 2000 (3 / 4)\<rfloor> = 1500" "nat \<lfloor>num_mul 3000 (3 / 4)\<rfloor> = 2250"
  unfolding num_mul_def by code_simp+

lemma samples_whiteCanvas: "samples whiteCanvas = [(500, 750), (1000, 1500), (1500, 2250)]"
  by (simp add: samples_def whiteCanvas_def sample_coords)

lemma pick_placeholderDoc: "pickLargeCandidate placeholderDoc = Some (CanvasCand whiteCanvas)"
  by (simp add: pickLargeCandidate_def placeholderDoc_def area_whiteCanvas del: area.simps)

theorem blank_canvas_not_accepted_witness:
  "list_all (\<lambda>s. blankPixel (sampledPixel whiteCanvas s)) (samples whiteCanvas)
   \<and> samples whiteCanvas = [(500, 750), (1000, 1500), (1500, 2250)]
   \<and> pickLargeCandidate placeholderDoc = Some (CanvasCand whiteCanvas)
   \<and> \<not> canvasHasNonWhitePixel whiteCanvas
   \<and> attempt placeholderDoc = None
   \<and> lazyRender (\<lambda>i. placeholderDoc) = RenderFailed (js ''timed out waiting for rendered page'')"
proof -
  have b: "list_all (\<lambda>s. blankPixel (sampledPixel whiteCanvas s)) (samples whiteCanvas)"
    unfolding samples_whiteCanvas
    by (simp add: sampledPixel_def blankPixel_def whiteCanvas_def whitePixel_def)
  from blank_canvas_not_accepted [OF b, of "\<lambda>i. placeholderDoc" 0] b samples_whiteCanvas
    pick_placeholderDoc
  show ?thesis by simp
qed

section \<open>Credential obfuscation: properties\<close>

lemma key_ascii: "key ! (i mod length key) < 0x80"
proof -
  have "\<forall>c \<in> set key. c < 0x80"
    by (simp add: key_def js_def)
  moreover have "key ! (i mod length key) \<in> set key"
    by (rule nth_mem) (simp add: key_def js_def)
  ultimately show ?thesis by blast
qed

lemma xor_ascii:
  fixes a b :: "16 word"
  assumes "a < 0x80" and "b < 0x80"
  shows "a XOR b < 0x80"
proof -
  have p: "(0x80 :: 16 word) = 2 ^ 7"
    by simp
  have a: "a AND mask 7 = a" and b: "b AND mask 7 = b"
    using assms unfolding p by (simp_all add: less_mask_eq)
  have "(a XOR b) AND mask 7 = (a AND mask 7) XOR (b AND mask 7)"
    by (simp add: bit.conj_xor_distrib2)
  then have "a XOR b = (a XOR b) AND mask 7"
    by (simp add: a b)
  moreover have "(a XOR b) AND mask 7 < 2 ^ 7"
    by (rule and_mask_less_size) (simp add: word_size)
  ultimately show ?thesis
    unfolding p by simp
qed

lemma xorWithKey_ascii:
  "list_all (\<lambda>c. c < 0x80) s \<Longrightarrow> list_all (\<lambda>c. c < 0x80) (xorWithKey i s)"
  by (induction s arbitrary: i) (simp_all add: xor_ascii key_ascii)

lemma xorWithKey_involution: "xorWithKey i (xorWithKey i s) = s"
  by (induction s arbitrary: i) (simp_all add: xor.assoc)

lemma unat_ucast_ascii:
  fixes c :: "16 word"
  assumes "c < 0x80"
  shows "unat (ucast c :: 8 word) = unat c"
proof -
  from assms have "unat c < 128"
    by (simp add: word_less_nat_alt)
  then have "take_bit 8 (unat c) = unat c"
    by (simp add: take_bit_nat_eq_self_iff)
  then show ?thesis
    by (simp add: unsigned_ucast_eq)
qed

lemma ucast_ascii_less:
  fixes c :: "16 word"
  assumes "c < 0x80"
  shows "(ucast c :: 8 word) < 0x80"
  using assms by (simp add: word_less_nat_alt unat_ucast_ascii)

lemma ucast_ascii_back:
  fixes c :: "16 word"
  assumes "c < 0x80"
  shows "(ucast (ucast c :: 8 word) :: 16 word) = c"
proof -
  from assms have "unat c < 128"
    by (simp add: word_less_nat_alt)
  then have "take_bit 8 (unat c) = unat c"
    by (simp add: take_bit_nat_eq_self_iff)
  then have "unat (ucast (ucast c :: 8 word) :: 16 word) = unat c"
    by (simp add: unsigned_ucast_eq unsigned_take_bit_eq)
  then show ?thesis
    by (simp only: word_unat_eq_iff)
qed

lemma utf8Encode_ascii:
  "list_all (\<lambda>c. c < 0x80) s \<Longrightarrow> utf8Encode s = map ucast s"
  by (induction s rule: utf8Encode.induct) (simp_all add: utf8Bytes1_def)

lemma utf8Decode_ascii:
  "list_all (\<lambda>c. c < 0x80) s \<Longrightarrow> utf8Decode (map ucast s) = s"
  by (induction s) (simp_all add: ucast_ascii_less ucast_ascii_back)


lemma b64_table:
  "list_all (\<lambda>n. unbase64 (lowByte (b64char n)) = Some n \<and> lowByte (b64char n) \<noteq> 0x3D) [0..<64]"
  by code_simp

lemma unbase64_b64char:
  assumes "n < 64"
  shows "unbase64 (lowByte (b64char n)) = Some n" and "lowByte (b64char n) \<noteq> 0x3D"
  using assms b64_table by (simp_all add: list_all_iff)

lemma sextets_Cons:
  assumes "n < 64"
  shows "sextets (b64char n # s) = n # sextets s"
  using unbase64_b64char [OF assms] by (simp add: sextets_def)

lemma sextets_pad: "sextets (0x3D # s) = []"
  by (simp add: sextets_def lowByte_def)

lemma sextets_Nil: "sextets [] = []"
  by (simp add: sextets_def)

lemma digit_div_mod:
  fixes a b n :: nat
  assumes "b < n"
  shows "(a * n + b) div n = a" and "(a * n + b) mod n = b"
  using assms by simp_all

lemma sextet_bounds:
  "sextet1 a < 64" "sextet2 a b < 64" "sextet3 b c < 64" "sextet4 c < 64"
proof -
  have a: "unat a < 256" and b: "unat b < 256" and c: "unat c < 256"
    using unsigned_less [of a] unsigned_less [of b] unsigned_less [of c] by simp_all
  from a show "sextet1 a < 64"
    by (simp add: sextet1_def)
  have "unat a mod 4 < 4" "unat b mod 16 < 16"
    by simp_all
  moreover from b c have "unat b div 16 < 16" "unat c div 64 < 4"
    by simp_all
  ultimately show "sextet2 a b < 64" "sextet3 b c < 64"
    unfolding sextet2_def sextet3_def by linarith+
  show "sextet4 c < 64"
    by (simp add: sextet4_def)
qed

lemma regroup:
  "byte1 (sextet1 a) (sextet2 a b) = a"
  "byte2 (sextet2 a b) (sextet3 b c) = b"
  "byte3 (sextet3 b c) (sextet4 c) = c"
proof -
  have "unat b < 256" and "unat c < 256"
    using unsigned_less [of b] unsigned_less [of c] by simp_all
  then have b: "unat b div 16 < 16" and c: "unat c div 64 < 4"
    by simp_all
  have "sextet1 a * 4 + sextet2 a b div 16 = unat a"
    unfolding sextet1_def sextet2_def digit_div_mod(1) [OF b] by simp
  then show "byte1 (sextet1 a) (sextet2 a b) = a"
    unfolding byte1_def by simp
  have "sextet2 a b mod 16 * 16 + sextet3 b c div 4 = unat b"
    unfolding sextet2_def sextet3_def digit_div_mod(2) [OF b] digit_div_mod(1) [OF c] by simp
  then show "byte2 (sextet2 a b) (sextet3 b c) = b"
    unfolding byte2_def by simp
  have "sextet3 b c mod 4 * 64 + sextet4 c = unat c"
    unfolding sextet3_def sextet4_def digit_div_mod(2) [OF c] by simp
  then show "byte3 (sextet3 b c) (sextet4 c) = c"
    unfolding byte3_def by simp
qed

lemma base64_roundtrip: "base64Decode (base64Encode bs) = bs"
proof (induction bs rule: base64Encode.induct)
  case 1
  show ?case by (simp add: base64Decode_def sextets_Nil)
next
  case (2 a)
  show ?case
    by (simp add: base64Decode_def sextets_Cons sextet_bounds sextets_pad regroup)
next
  case (3 a b)
  show ?case
    by (simp add: base64Decode_def sextets_Cons sextet_bounds sextets_pad regroup)
next
  case (4 a b c rest)
  then show ?case
    by (simp add: base64Decode_def sextets_Cons sextet_bounds regroup)
qed

text \<open>
  C10. For a string of ASCII code units, decoding the encoded string gives the string
  back; hence credentials of ASCII strings saved to the file are loaded unchanged.
\<close>

theorem codec_roundtrip:
  assumes "list_all (\<lambda>c. c < 0x80) s"
  shows "decode (encode s) = s
       \<and> (list_all (\<lambda>c. c < 0x80) p \<longrightarrow>
            loadCredentials (saveCredentials s p) = Some \<lparr>email = s, password = p\<rparr>)"
  using assms
  by (simp add: decode_def encode_def base64_roundtrip utf8Encode_ascii utf8Decode_ascii
      xorWithKey_ascii xorWithKey_involution loadCredentials_def saveCredentials_def)

lemma encode_example: "encode (js ''user@viacesi.fr'') = js ''AxwdFCUCCglOBhYaR0tA''"
  by code_simp

theorem codec_roundtrip_witness:
  "list_all (\<lambda>c. c < 0x80) (js ''user@viacesi.fr'')
   \<and> list_all (\<lambda>c. c < 0x80) (js ''S3cret!'')
   \<and> encode (js ''user@viacesi.fr'') = js ''AxwdFCUCCglOBhYaR0tA''
   \<and> decode (encode (js ''user@viacesi.fr'')) = js ''user@viacesi.fr''
   \<and> loadCredentials (saveCredentials (js ''user@viacesi.fr'') (js ''S3cret!''))
       = Some \<lparr>email = js ''user@viacesi.fr'', password = js ''S3cret!''\<rparr>"
proof -
  have a: "list_all (\<lambda>c. c < 0x80) (js ''user@viacesi.fr'')"
    by (simp add: js_def)
  have b: "list_all (\<lambda>c. c < 0x80) (js ''S3cret!'')"
    by (simp add: js_def)
  from codec_roundtrip [OF a, of "js ''S3cret!''"] a b encode_example show ?thesis
    by simp
qed

end
